theory Spec2Isabelle
  imports Main "HOL-Library.Sublist"
begin

section \<open>JavaScript values\<close>

text \<open>
  The handlers receive parsed JSON from the generative-text backend and send JSON
  objects back. A value is one of JavaScript's JSON-shaped values, with \<open>undefined\<close>
  added for an absent property. An object is the list of its own properties, each key
  once, in insertion order. A number is modelled by an integer: the handlers use a number
  of the backend only through its truthiness (the test against zero).
  Strings are byte strings (UTF-8): a code point outside ASCII is several characters.
\<close>

datatype jsval =
    JUndefined
  | JNull
  | JBool bool
  | JNum int
  | JStr string
  | JArr "jsval list"
  | JObj "(string \<times> jsval) list"

text \<open>JavaScript's truthiness, as used by \<open>!x\<close> and \<open>x || y\<close>.\<close>

fun truthy :: "jsval \<Rightarrow> bool" where
  "truthy JUndefined = False"
| "truthy JNull = False"
| "truthy (JBool b) = b"
| "truthy (JNum n) = (n \<noteq> 0)"
| "truthy (JStr s) = (s \<noteq> [])"
| "truthy (JArr xs) = True"
| "truthy (JObj kvs) = True"

text \<open>
  \<open>v?.k\<close> for one of the property names \<open>candidates\<close>, \<open>content\<close>, \<open>parts\<close>,
  \<open>text\<close>: nullish values short-circuit to \<open>undefined\<close>, an object yields its own
  property, and arrays, strings, numbers and booleans have no property of these names.
\<close>

fun opt_prop :: "jsval \<Rightarrow> string \<Rightarrow> jsval" where
  "opt_prop (JObj kvs) k = (case map_of kvs k of None \<Rightarrow> JUndefined | Some v \<Rightarrow> v)"
| "opt_prop v k = JUndefined"

text \<open>
  \<open>v?.[0]\<close>: the first element of an array, the first character of a string, the
  property \<open>"0"\<close> of an object, \<open>undefined\<close> otherwise.
\<close>

fun opt_index0 :: "jsval \<Rightarrow> jsval" where
  "opt_index0 (JArr []) = JUndefined"
| "opt_index0 (JArr (x # xs)) = x"
| "opt_index0 (JStr []) = JUndefined"
| "opt_index0 (JStr (c # cs)) = JStr [c]"
| "opt_index0 (JObj kvs) = (case map_of kvs ''0'' of None \<Rightarrow> JUndefined | Some v \<Rightarrow> v)"
| "opt_index0 v = JUndefined"

text \<open>\<open>data?.candidates?.[0]?.content?.parts?.[0]?.text\<close>\<close>

definition reply_text :: "jsval \<Rightarrow> jsval" where
  "reply_text data =
     opt_prop (opt_index0 (opt_prop (opt_prop (opt_index0 (opt_prop data ''candidates''))
       ''content'') ''parts'')) ''text''"

section \<open>The outside world\<close>

text \<open>
  What one \<open>fetch\<close> of the generative-text backend followed by \<open>response.json()\<close>
  does. The code sets no timeout on it, so there are four cases: neither promise ever
  settles (the backend never answers), the fetch rejects (network failure, or a timeout
  of the transport), the body is not JSON and \<open>response.json()\<close> rejects, or the body
  parses to a value.
\<close>

datatype fetch_result = Unsettled | FetchRejected | JsonRejected | Parsed jsval

text \<open>
  The world of one call of a handler that runs without interruption: what the backend does
  on a prompt, and whether the POST to the evaluation endpoint ever settles. The handler
  awaits that POST inside \<open>try { ... } catch { }\<close> and reads nothing of its result, so
  resolving and rejecting are one case.
\<close>

record World =
  gemini :: "string \<Rightarrow> fetch_result"
  guviSettles :: bool

datatype error = TypeError

text \<open>
  What the caller gets: a response, an exception thrown by the handler, or nothing as long
  as a fetch the handler awaits does not settle.
\<close>

datatype outcome = Response nat jsval | Thrown error | Unanswered

section \<open>Requests and sessions\<close>

text \<open>
  A JSON value that a handler uses only through its truthiness and its conversion to a
  string, as a property key (\<open>sessionState[sessionId]\<close>) or in a template literal: a
  falsy value; a truthy value, with the string it converts to (a string converts to
  itself, the number 7 to \<open>7\<close>, an empty array to the empty string); or a truthy value
  whose conversion throws a \<open>TypeError\<close> (an object with an own property \<open>toString\<close>,
  which parsed JSON cannot make callable).
\<close>

datatype stringish = Falsy | Truthy string | Unconvertible

text \<open>
  The fields of a request that the handlers read. The body is parsed JSON, so
  \<open>message.text\<close> and \<open>metadata\<close> are any JSON value, \<open>JUndefined\<close> when the property
  is absent; \<open>message\<close> is \<open>None\<close> when it is absent or \<open>null\<close>. The key is the value
  of the header \<open>x-api-key\<close>, a string, \<open>None\<close> when the header is absent. \<open>b_text\<close> is
  the top-level \<open>text\<close> property read by the one-shot detection handler.
\<close>

record Message =
  m_text :: jsval

record Envelope =
  sessionId :: stringish
  message :: "Message option"
  metadata :: jsval
  b_text :: stringish

record Request =
  http_method :: string
  api_key :: "string option"
  body :: "Envelope option"

text \<open>
  A session of \<open>sessionState\<close>. A JavaScript \<open>Set\<close> keeps insertion order and
  \<open>Array.from\<close> reads it in that order: a set is a list without repetition.
  The turn counter is a natural number (a JavaScript number counts exactly up to \<open>2^53\<close>).
\<close>

record Session =
  turns :: nat
  scamIndicators :: "string list"
  requestedData :: "string list"
  finalized :: bool

type_synonym Store = "string \<rightharpoonup> Session"

text \<open>
  The payload posted to the evaluation endpoint. Its \<open>sessionId\<close> is given by the
  property key of the identifier, which for a string is the identifier itself.
\<close>

record IntelligencePayload =
  p_sessionId :: string
  scamDetected :: bool
  p_scamIndicators :: "string list"
  requestedSensitiveData :: "string list"
  p_channel :: jsval
  p_language :: jsval
  p_locale :: jsval
  totalTurns :: nat

text \<open>\<open>Set.prototype.add\<close>\<close>

definition Set_add :: "string \<Rightarrow> string list \<Rightarrow> string list" where
  "Set_add x xs = (if x \<in> set xs then xs else xs @ [x])"

text \<open>\<open>!s\<close> for an optional string: absent or empty.\<close>

fun falsy :: "string option \<Rightarrow> bool" where
  "falsy None = True"
| "falsy (Some s) = (s = [])"

section \<open>Letter case\<close>

text \<open>
  \<open>String.prototype.toLowerCase\<close> belongs to the JavaScript runtime, not to the
  repository: the handler takes it as the parameter \<open>toLowerCase\<close>. Two facts about it
  are used, and only where a statement needs them: on a string of ASCII characters it
  lowers the letters A to Z and changes nothing else, and lowering the ASCII letters of
  any string first does not change its result. What it does to other characters (it maps
  U+212A to \<open>k\<close>, for one) is left to the parameter.
\<close>

definition lower_char :: "char \<Rightarrow> char" where
  "lower_char c =
     (case map_of (zip ''ABCDEFGHIJKLMNOPQRSTUVWXYZ'' ''abcdefghijklmnopqrstuvwxyz'') c of
        None \<Rightarrow> c
      | Some l \<Rightarrow> l)"

definition upper_char :: "char \<Rightarrow> char" where
  "upper_char c =
     (case map_of (zip ''abcdefghijklmnopqrstuvwxyz'' ''ABCDEFGHIJKLMNOPQRSTUVWXYZ'') c of
        None \<Rightarrow> c
      | Some u \<Rightarrow> u)"

definition asciiLower :: "string \<Rightarrow> string" where
  "asciiLower s = map lower_char s"

definition asciiUpper :: "string \<Rightarrow> string" where
  "asciiUpper s = map upper_char s"

definition ascii :: "string \<Rightarrow> bool" where
  "ascii s = list_all (\<lambda>c. \<not> digit7 c) s"

definition lowering :: "(string \<Rightarrow> string) \<Rightarrow> bool" where
  "lowering toLowerCase =
     ((\<forall>s. ascii s \<longrightarrow> toLowerCase s = asciiLower s)
      \<and> (\<forall>s. toLowerCase (asciiLower s) = toLowerCase s))"

section \<open>Indicator extraction\<close>

text \<open>A regular expression that is an alternation of literals tests for a substring.\<close>

fun test :: "string \<Rightarrow> string \<Rightarrow> bool" where
  "test p [] = (p = [])"
| "test p (c # cs) = (prefix p (c # cs) \<or> test p cs)"

definition addRequested :: "bool \<Rightarrow> string \<Rightarrow> Session \<Rightarrow> Session" where
  "addRequested hit tag s =
     (if hit then s\<lparr>requestedData := Set_add tag (requestedData s)\<rparr> else s)"

definition addIndicator :: "bool \<Rightarrow> string \<Rightarrow> Session \<Rightarrow> Session" where
  "addIndicator hit tag s =
     (if hit then s\<lparr>scamIndicators := Set_add tag (scamIndicators s)\<rparr> else s)"

text \<open>The five rules of the handler, in the order of the source, on the lowered text.\<close>

definition extraction :: "string \<Rightarrow> Session \<Rightarrow> Session" where
  "extraction lower s =
     addIndicator (test ''won'' lower \<or> test ''prize'' lower \<or> test ''reward'' lower)
       ''Lottery Scam''
     (addIndicator (test ''blocked'' lower \<or> test ''suspended'' lower
          \<or> test ''urgent'' lower \<or> test ''hours'' lower)
       ''Threat / Urgency''
     (addIndicator (test ''link'' lower \<or> test ''click'' lower)
       ''Phishing Link''
     (addRequested (test ''upi'' lower \<or> test ''account number'' lower
          \<or> test ''bank'' lower)
       ''Bank Details''
     (addRequested (test ''otp'' lower \<or> test ''one time password'' lower)
       ''OTP'' s))))"

text \<open>Whether any of the five rules matches.\<close>

definition anyRule :: "string \<Rightarrow> bool" where
  "anyRule lower =
     ((test ''otp'' lower \<or> test ''one time password'' lower)
      \<or> (test ''upi'' lower \<or> test ''account number'' lower \<or> test ''bank'' lower)
      \<or> (test ''link'' lower \<or> test ''click'' lower)
      \<or> (test ''blocked'' lower \<or> test ''suspended'' lower
          \<or> test ''urgent'' lower \<or> test ''hours'' lower)
      \<or> (test ''won'' lower \<or> test ''prize'' lower \<or> test ''reward'' lower))"

definition newSession :: Session where
  "newSession = \<lparr>turns = 0, scamIndicators = [], requestedData = [], finalized = False\<rparr>"

text \<open>
  The extractor as a function of the text alone: what the rules add to a session that
  has no tags yet.
\<close>

definition extractIndicators :: "(string \<Rightarrow> string) \<Rightarrow> string \<Rightarrow> string list \<times> string list" where
  "extractIndicators toLowerCase msg =
     (let s = extraction (toLowerCase msg) newSession
      in (scamIndicators s, requestedData s))"

section \<open>The conversation handler\<close>

definition genericReply :: string where
  "genericReply = ''Can you share official confirmation for this request?''"

text \<open>The baseline reply for a turn count. The third reply has U+2019 (three bytes in UTF-8).\<close>

definition baseReply :: "nat \<Rightarrow> string" where
  "baseReply n =
     (if n = 1 then ''Why is my account being suspended?''
      else if n = 2 then ''What exactly do you need to verify?''
      else if n = 3 then
        ''I haven'' @ [CHR 0xE2, CHR 0x80, CHR 0x99] @ ''t received any official notification.''
      else genericReply)"

definition geminiPrompt :: "string \<Rightarrow> string" where
  "geminiPrompt base =
     [CHR 0x0A] @ ''You are a cautious bank customer.''
     @ [CHR 0x0A] @ ''Ask ONE short clarification question.''
     @ [CHR 0x0A] @ ''Do NOT share personal information.''
     @ [CHR 0x0A] @ ''Do NOT mention scams or security.''
     @ [CHR 0x0A] @ ''Rephrase naturally:''
     @ [CHR 0x0A, CHR 0x0A, CHR 0x22] @ base @ [CHR 0x22, CHR 0x0A]"

text \<open>
  What the promise of \<open>generateGeminiReply\<close> resolves to, \<open>None\<close> when it never settles:
  a rejection of the fetch or of \<open>response.json()\<close> is caught and becomes \<open>null\<close>;
  otherwise the optional chain reads the text of the first part.
\<close>

fun geminiReplyOf :: "fetch_result \<Rightarrow> jsval option" where
  "geminiReplyOf Unsettled = None"
| "geminiReplyOf FetchRejected = Some JNull"
| "geminiReplyOf JsonRejected = Some JNull"
| "geminiReplyOf (Parsed data) = Some (reply_text data)"

definition generateGeminiReply :: "World \<Rightarrow> string \<Rightarrow> jsval option" where
  "generateGeminiReply w prompt = geminiReplyOf (gemini w prompt)"

text \<open>\<open>a || b\<close>\<close>

definition orElse :: "jsval \<Rightarrow> jsval \<Rightarrow> jsval" where
  "orElse a b = (if truthy a then a else b)"

definition successBody :: "jsval \<Rightarrow> jsval" where
  "successBody reply = JObj [(''status'', JStr ''success''), (''reply'', reply)]"

definition errorBody :: "string \<Rightarrow> jsval" where
  "errorBody e = JObj [(''error'', JStr e)]"

text \<open>
  The object literal \<open>intelligencePayload\<close>. Reading \<open>metadata.channel\<close> throws a
  \<open>TypeError\<close> when \<open>metadata\<close> is \<open>null\<close> (an absent \<open>metadata\<close> has been replaced by
  \<open>{}\<close> before); on any other value it yields the own property or \<open>undefined\<close>.
\<close>

definition report :: "string \<Rightarrow> jsval \<Rightarrow> Session \<Rightarrow> IntelligencePayload" where
  "report sid md s =
     \<lparr>p_sessionId = sid,
      scamDetected = True,
      p_scamIndicators = scamIndicators s,
      requestedSensitiveData = requestedData s,
      p_channel = orElse (opt_prop md ''channel'') (JStr ''Unknown''),
      p_language = orElse (opt_prop md ''language'') (JStr ''Unknown''),
      p_locale = orElse (opt_prop md ''locale'') (JStr ''Unknown''),
      totalTurns = turns s\<rparr>"

definition intelligencePayload ::
  "string \<Rightarrow> jsval \<Rightarrow> Session \<Rightarrow> error + IntelligencePayload" where
  "intelligencePayload sid md s =
     (if md = JNull \<or> md = JUndefined then Inl TypeError else Inr (report sid md s))"

text \<open>
  \<open>sessionState\<close> is a plain object, so \<open>sessionState[sessionId]\<close> also finds the
  properties every object inherits from \<open>Object.prototype\<close>. They are truthy: no session
  is created for such an identifier, and \<open>state\<close> is the inherited value. On it
  \<open>state.turns\<close> becomes \<open>NaN\<close>, \<open>state.requestedData\<close> and \<open>state.scamIndicators\<close>
  are \<open>undefined\<close>: the first rule that matches throws a \<open>TypeError\<close>; when none
  matches, no comparison with \<open>NaN\<close> holds, the baseline is the last one and nothing is
  finalized.
\<close>

definition inheritedKeys :: "string list" where
  "inheritedKeys =
     [''__proto__'', ''constructor'', ''hasOwnProperty'', ''isPrototypeOf'',
      ''propertyIsEnumerable'', ''toLocaleString'', ''toString'', ''valueOf'',
      ''__defineGetter__'', ''__defineSetter__'', ''__lookupGetter__'', ''__lookupSetter__'']"

text \<open>
  The session object under an identifier once the initialisation block has run: the one
  of the store, or the new session it creates. Session objects are never removed from
  the store, so this is also the object \<open>state\<close> that a suspended call holds.
\<close>

definition sessionOf :: "Store \<Rightarrow> string \<Rightarrow> Session" where
  "sessionOf st sid = (case st sid of None \<Rightarrow> newSession | Some s \<Rightarrow> s)"

text \<open>
  A call of the handler that is suspended at \<open>await generateGeminiReply(...)\<close>: the
  identifier of its session object (\<open>None\<close> when \<open>state\<close> is an inherited value), its
  \<open>metadata\<close> and its \<open>baseReply\<close>.
\<close>

record Call =
  c_key :: "string option"
  c_metadata :: jsval
  c_base :: string

fun stringOf :: "jsval \<Rightarrow> string option" where
  "stringOf (JStr s) = Some s"
| "stringOf v = None"

text \<open>
  The handler after its guards, up to its first \<open>await\<close>: the session is created when the
  store has nothing under the identifier (own or inherited), the counter is incremented,
  then \<open>text.toLowerCase()\<close> throws a \<open>TypeError\<close> unless the text is a string, the
  rules run and the baseline is chosen.
\<close>

definition engage ::
  "(string \<Rightarrow> string) \<Rightarrow> string \<Rightarrow> jsval \<Rightarrow> jsval \<Rightarrow> Store \<Rightarrow> (outcome + Call) \<times> Store" where
  "engage toLowerCase sid tx md st =
     (if st sid = None \<and> sid \<in> set inheritedKeys then
        (case stringOf tx of
           None \<Rightarrow> (Inl (Thrown TypeError), st)
         | Some msg \<Rightarrow>
             if anyRule (toLowerCase msg) then (Inl (Thrown TypeError), st)
             else (Inr \<lparr>c_key = None, c_metadata = md, c_base = genericReply\<rparr>, st))
      else
        (let state = (sessionOf st sid)\<lparr>turns := turns (sessionOf st sid) + 1\<rparr> in
         case stringOf tx of
           None \<Rightarrow> (Inl (Thrown TypeError), st(sid \<mapsto> state))
         | Some msg \<Rightarrow>
             (let s = extraction (toLowerCase msg) state
              in (Inr \<lparr>c_key = Some sid, c_metadata = md, c_base = baseReply (turns s)\<rparr>,
                  st(sid \<mapsto> s)))))"

text \<open>\<open>message?.text\<close>\<close>

definition messageText :: "Envelope \<Rightarrow> jsval" where
  "messageText b = (case message b of None \<Rightarrow> JUndefined | Some m \<Rightarrow> m_text m)"

text \<open>The destructuring default \<open>metadata = {}\<close>: it replaces \<open>undefined\<close> only.\<close>

definition metadataOf :: "Envelope \<Rightarrow> jsval" where
  "metadataOf b = (if metadata b = JUndefined then JObj [] else metadata b)"

text \<open>
  The handler from its first line to its first \<open>await\<close>: it answers at once, throws
  (destructuring an absent body throws, and so does \<open>sessionState[sessionId]\<close> for an
  identifier that has no property key), or is suspended with the backend asked.
\<close>

definition arrive :: "(string \<Rightarrow> string) \<Rightarrow> Request \<Rightarrow> Store \<Rightarrow> (outcome + Call) \<times> Store" where
  "arrive toLowerCase req st =
     (if falsy (api_key req) then (Inl (Response 401 (errorBody ''x-api-key missing'')), st)
      else if api_key req \<noteq> Some ''dev-key'' then
        (Inl (Response 403 (errorBody ''Invalid API key'')), st)
      else
        (case body req of
           None \<Rightarrow> (Inl (Thrown TypeError), st)
         | Some b \<Rightarrow>
             if sessionId b = Falsy \<or> \<not> truthy (messageText b) then
               (Inl (Response 200 (successBody (JStr ''Can you explain this message?''))), st)
             else
               (case sessionId b of
                  Truthy sid \<Rightarrow> engage toLowerCase sid (messageText b) (metadataOf b) st
                | _ \<Rightarrow> (Inl (Thrown TypeError), st))))"

text \<open>
  The handler from the answer of the backend to its next \<open>await\<close> or its end, on the
  store as it is then: the reply is chosen; when the counter of the session is at least 4
  and the session is not finalized, the flag is set, the payload is built (which may
  throw) and posted, and the call is suspended at \<open>await fetch(...)\<close> with its reply;
  otherwise the call answers.
\<close>

definition afterGemini ::
  "Call \<Rightarrow> jsval \<Rightarrow> Store \<Rightarrow> (outcome + jsval) \<times> Store \<times> IntelligencePayload list" where
  "afterGemini c geminiReply st =
     (let reply = orElse geminiReply (JStr (c_base c)) in
      case c_key c of
        None \<Rightarrow> (Inl (Response 200 (successBody reply)), st, [])
      | Some sid \<Rightarrow>
          (let state = sessionOf st sid in
           if 4 \<le> turns state \<and> \<not> finalized state then
             (case intelligencePayload sid (c_metadata c) (state\<lparr>finalized := True\<rparr>) of
                Inl e \<Rightarrow> (Inl (Thrown e), st(sid \<mapsto> state\<lparr>finalized := True\<rparr>), [])
              | Inr p \<Rightarrow> (Inr reply, st(sid \<mapsto> state\<lparr>finalized := True\<rparr>), [p]))
           else (Inl (Response 200 (successBody reply)), st, [])))"

text \<open>The final response, once the POST to the evaluation endpoint has settled.\<close>

definition afterGuvi :: "jsval \<Rightarrow> outcome" where
  "afterGuvi reply = Response 200 (successBody reply)"

text \<open>
  One call of the session handler that runs without another call in between: it takes
  the world of this call, the request and the session store, and returns what the caller
  gets, the store and the payloads posted to the evaluation endpoint.
\<close>

definition handler ::
  "(string \<Rightarrow> string) \<Rightarrow> World \<Rightarrow> Request \<Rightarrow> Store
     \<Rightarrow> outcome \<times> Store \<times> IntelligencePayload list" where
  "handler toLowerCase w req st =
     (case arrive toLowerCase req st of
        (Inl out, st1) \<Rightarrow> (out, st1, [])
      | (Inr c, st1) \<Rightarrow>
          (case generateGeminiReply w (geminiPrompt (c_base c)) of
             None \<Rightarrow> (Unanswered, st1, [])
           | Some g \<Rightarrow>
               (case afterGemini c g st1 of
                  (Inl out, st2, sent) \<Rightarrow> (out, st2, sent)
                | (Inr reply, st2, sent) \<Rightarrow>
                    (if guviSettles w then afterGuvi reply else Unanswered, st2, sent))))"

section \<open>Calls that overlap\<close>

text \<open>
  The handler is an \<open>async\<close> function: while one call waits for the backend or for the
  evaluation endpoint, other calls run on the same store. The system is the store and
  the suspended calls, numbered in the order of arrival. An event is the arrival of a
  request, or the settling of the fetch that a suspended call awaits; a fetch that never
  settles has no event (an event that carries \<open>Unsettled\<close> changes nothing). A step
  returns what is sent out: responses (or exceptions) to callers and payloads to the
  evaluation endpoint.
\<close>

datatype suspended = AtGemini Call | AtGuvi jsval

record System =
  store :: Store
  calls :: "nat \<rightharpoonup> suspended"
  arrived :: nat

datatype event = Arrive Request | GeminiSettles nat fetch_result | GuviSettles nat

datatype effect = Responded nat outcome | Posted IntelligencePayload

definition initial :: System where
  "initial = \<lparr>store = Map.empty, calls = Map.empty, arrived = 0\<rparr>"

definition onArrive :: "(string \<Rightarrow> string) \<Rightarrow> Request \<Rightarrow> System \<Rightarrow> System \<times> effect list" where
  "onArrive toLowerCase req sys =
     (let r = arrive toLowerCase req (store sys); k = arrived sys in
      case fst r of
        Inl out \<Rightarrow> (sys\<lparr>store := snd r, arrived := Suc k\<rparr>, [Responded k out])
      | Inr c \<Rightarrow> (sys\<lparr>store := snd r, calls := (calls sys)(k \<mapsto> AtGemini c), arrived := Suc k\<rparr>, []))"

definition onGemini :: "nat \<Rightarrow> Call \<Rightarrow> jsval \<Rightarrow> System \<Rightarrow> System \<times> effect list" where
  "onGemini k c g sys =
     (let r = afterGemini c g (store sys) in
      case fst r of
        Inl out \<Rightarrow>
          (sys\<lparr>store := fst (snd r), calls := (calls sys)(k := None)\<rparr>,
           map Posted (snd (snd r)) @ [Responded k out])
      | Inr reply \<Rightarrow>
          (sys\<lparr>store := fst (snd r), calls := (calls sys)(k \<mapsto> AtGuvi reply)\<rparr>,
           map Posted (snd (snd r))))"

fun step :: "(string \<Rightarrow> string) \<Rightarrow> System \<Rightarrow> event \<Rightarrow> System \<times> effect list" where
  "step toLowerCase sys (Arrive req) = onArrive toLowerCase req sys"
| "step toLowerCase sys (GeminiSettles k r) =
     (case calls sys k of
        Some (AtGemini c) \<Rightarrow>
          (case geminiReplyOf r of None \<Rightarrow> (sys, []) | Some g \<Rightarrow> onGemini k c g sys)
      | _ \<Rightarrow> (sys, []))"
| "step toLowerCase sys (GuviSettles k) =
     (case calls sys k of
        Some (AtGuvi reply) \<Rightarrow> (sys\<lparr>calls := (calls sys)(k := None)\<rparr>, [Responded k (afterGuvi reply)])
      | _ \<Rightarrow> (sys, []))"

fun exec :: "(string \<Rightarrow> string) \<Rightarrow> System \<Rightarrow> event list \<Rightarrow> System \<times> effect list" where
  "exec toLowerCase sys [] = (sys, [])"
| "exec toLowerCase sys (e # es) =
     (let r = step toLowerCase sys e;
          rest = exec toLowerCase (fst r) es
      in (fst rest, snd r @ snd rest))"

text \<open>The payloads among the outputs.\<close>

fun posted :: "effect list \<Rightarrow> IntelligencePayload list" where
  "posted [] = []"
| "posted (Posted p # outs) = p # posted outs"
| "posted (Responded k out # outs) = posted outs"

section \<open>The one-shot detection handler\<close>

definition detectionPrompt :: "string \<Rightarrow> string" where
  "detectionPrompt msg =
     [CHR 0x0A] @ ''You are an AI honeypot chat bot.''
     @ [CHR 0x0A, CHR 0x0A] @ ''Decide if the message is a scam.''
     @ [CHR 0x0A] @ ''If scam, reply like a real person and keep the scammer talking.''
     @ [CHR 0x0A] @ ''Never share OTP, PIN, or personal info.''
     @ [CHR 0x0A] @ ''If not scam, reply politely.''
     @ [CHR 0x0A, CHR 0x0A] @ ''Return ONLY valid JSON:''
     @ [CHR 0x0A] @ ''{''
     @ [CHR 0x0A] @ ''  '' @ [CHR 0x22] @ ''isScam'' @ [CHR 0x22] @ '': true or false,''
     @ [CHR 0x0A] @ ''  '' @ [CHR 0x22] @ ''reply'' @ [CHR 0x22] @ '': ''
         @ [CHR 0x22] @ ''message to send back'' @ [CHR 0x22] @ '',''
     @ [CHR 0x0A] @ ''  '' @ [CHR 0x22] @ ''scamType'' @ [CHR 0x22] @ '': ''
         @ [CHR 0x22] @ ''OTP / Bank / UPI / None'' @ [CHR 0x22]
     @ [CHR 0x0A] @ ''}''
     @ [CHR 0x0A, CHR 0x0A] @ ''Message:''
     @ [CHR 0x0A, CHR 0x22] @ msg @ [CHR 0x22, CHR 0x0A]"

definition defaultResult :: jsval where
  "defaultResult =
     JObj [(''isScam'', JBool False),
           (''reply'', JStr ''Okay, thanks for the message!''),
           (''scamType'', JStr ''None'')]"

text \<open>
  The second handler of the repository: it answers a GET as a liveness probe, checks the
  method and the key, reads the top-level \<open>text\<close> of the body and asks the backend once.
  \<open>JSON_parse\<close> is the library's \<open>JSON.parse\<close> on the backend's text, \<open>None\<close> when
  it throws. A rejection of the fetch or of \<open>response.json()\<close> is caught and answered
  by 500, and so is a text that the template literal cannot convert to a string; while
  the backend does not answer, neither does the handler.
\<close>

definition handler_000 ::
  "(jsval \<Rightarrow> jsval option) \<Rightarrow> World \<Rightarrow> Request \<Rightarrow> outcome" where
  "handler_000 JSON_parse w req =
     (if http_method req = ''GET'' then Response 200 (JObj [(''status'', JStr ''ok'')])
      else if http_method req \<noteq> ''POST'' then Response 405 (errorBody ''Method not allowed'')
      else if api_key req \<noteq> Some ''dev-key'' then Response 401 (errorBody ''Unauthorized'')
      else
        (case body req of
           None \<Rightarrow> Thrown TypeError
         | Some b \<Rightarrow>
             (case b_text b of
                Falsy \<Rightarrow> Response 400 (errorBody ''Text is required'')
              | Unconvertible \<Rightarrow> Response 500 (errorBody ''Gemini failed'')
              | Truthy msg \<Rightarrow>
                  (case gemini w (detectionPrompt msg) of
                     Unsettled \<Rightarrow> Unanswered
                   | FetchRejected \<Rightarrow> Response 500 (errorBody ''Gemini failed'')
                   | JsonRejected \<Rightarrow> Response 500 (errorBody ''Gemini failed'')
                   | Parsed data \<Rightarrow>
                       (case JSON_parse (orElse (reply_text data) (JStr [])) of
                          None \<Rightarrow> Response 200 defaultResult
                        | Some result \<Rightarrow> Response 200 result)))))"

section \<open>Counting\<close>

text \<open>
  The session identifier (as a property key), the text and the metadata of a request that
  passes the guards of the session handler and whose identifier has a property key: for
  such a request the handler reaches the increment of the turn counter.
\<close>

definition accepted :: "Request \<Rightarrow> (string \<times> jsval \<times> jsval) option" where
  "accepted req =
     (if api_key req = Some ''dev-key'' then
        (case body req of
           None \<Rightarrow> None
         | Some b \<Rightarrow>
             if \<not> truthy (messageText b) then None
             else
               (case sessionId b of
                  Truthy sid \<Rightarrow> Some (sid, messageText b, metadataOf b)
                | _ \<Rightarrow> None))
      else None)"

definition acceptedFor :: "string \<Rightarrow> Request \<Rightarrow> bool" where
  "acceptedFor sid req = (case accepted req of None \<Rightarrow> False | Some t \<Rightarrow> fst t = sid)"

text \<open>The same for a request whose text is a string: an inbound message.\<close>

definition inbound :: "Request \<Rightarrow> (string \<times> string \<times> jsval) option" where
  "inbound req =
     (case accepted req of
        None \<Rightarrow> None
      | Some t \<Rightarrow>
          (case stringOf (fst (snd t)) of
             None \<Rightarrow> None
           | Some msg \<Rightarrow> Some (fst t, msg, snd (snd t))))"

definition inboundFor :: "string \<Rightarrow> Request \<Rightarrow> bool" where
  "inboundFor sid req = (case inbound req of None \<Rightarrow> False | Some t \<Rightarrow> fst t = sid)"

text \<open>The requests that arrive in a list of events.\<close>

fun arrivals :: "event list \<Rightarrow> Request list" where
  "arrivals [] = []"
| "arrivals (Arrive req # es) = req # arrivals es"
| "arrivals (GeminiSettles k r # es) = arrivals es"
| "arrivals (GuviSettles k # es) = arrivals es"

text \<open>The number of requests among the events that are processed for a session.\<close>

definition processed :: "string \<Rightarrow> event list \<Rightarrow> nat" where
  "processed sid es = length (filter (acceptedFor sid) (arrivals es))"

text \<open>
  The session after the increment of its turn counter and the extraction from a text.
\<close>

definition advance :: "(string \<Rightarrow> string) \<Rightarrow> string \<Rightarrow> Session \<Rightarrow> Session" where
  "advance toLowerCase msg state =
     extraction (toLowerCase msg) (state\<lparr>turns := turns state + 1\<rparr>)"

text \<open>The turn counter of a session in a store; before the session is created it is 0.\<close>

definition turnCounter :: "Store \<Rightarrow> string \<Rightarrow> nat" where
  "turnCounter st sid = (case st sid of None \<Rightarrow> 0 | Some s \<Rightarrow> turns s)"

text \<open>Whether a store has a finalized session under an identifier.\<close>

definition closed :: "Store \<Rightarrow> string \<Rightarrow> bool" where
  "closed st sid = (case st sid of None \<Rightarrow> False | Some s \<Rightarrow> finalized s)"


text \<open>
  The events of calls that are handled in turn: each call arrives, gets the backend's
  answer and, if it posted a report, the settling of that POST, before the next arrives.
\<close>

fun inTurn :: "nat \<Rightarrow> (fetch_result \<times> Request) list \<Rightarrow> event list" where
  "inTurn k [] = []"
| "inTurn k (c # cs) =
     [Arrive (snd c), GeminiSettles k (fst c), GuviSettles k] @ inTurn (Suc k) cs"

text \<open>
  A call handled in turn is ordinary when the backend answers it (in whatever way) and its
  text, if the guards let it pass, is a string.
\<close>

definition ordinary :: "fetch_result \<times> Request \<Rightarrow> bool" where
  "ordinary c = (fst c \<noteq> Unsettled \<and> (accepted (snd c) = None \<or> inbound (snd c) \<noteq> None))"


text \<open>The world of a call handled in turn.\<close>

definition worldOf :: "fetch_result \<Rightarrow> World" where
  "worldOf r = \<lparr>gemini = (\<lambda>prompt. r), guviSettles = True\<rparr>"

text \<open>
  In every session of a store the flag \<open>finalized\<close> is set exactly when the counter has
  reached the threshold.
\<close>

definition consistent :: "Store \<Rightarrow> bool" where
  "consistent st = (\<forall>sid s. st sid = Some s \<longrightarrow> finalized s = (4 \<le> turns s))"




fun statusOf :: "outcome \<Rightarrow> nat option" where
  "statusOf (Response code b) = Some code"
| "statusOf out = None"

section \<open>Example requests\<close>

text \<open>
  Backends: one that is down, one that answers nonsense, one that answers, and one that
  never answers.
\<close>

definition backendSays :: "string \<Rightarrow> fetch_result" where
  "backendSays answer =
     Parsed (JObj [(''candidates'',
       JArr [JObj [(''content'', JObj [(''parts'',
         JArr [JObj [(''text'', JStr answer)]])])]])])"

definition geminiDown :: World where
  "geminiDown = \<lparr>gemini = (\<lambda>prompt. FetchRejected), guviSettles = True\<rparr>"




text \<open>
  A POST with the accepted key, a session identifier and a message text; the same with a
  \<open>metadata\<close> value; and the same with a text that need not be a string.
\<close>

definition postValue :: "string \<Rightarrow> jsval \<Rightarrow> jsval \<Rightarrow> Request" where
  "postValue sid tx md =
     \<lparr>http_method = ''POST'', api_key = Some ''dev-key'',
      body = Some \<lparr>sessionId = Truthy sid, message = Some \<lparr>m_text = tx\<rparr>,
                   metadata = md, b_text = Falsy\<rparr>\<rparr>"

definition post :: "string \<Rightarrow> string \<Rightarrow> Request" where
  "post sid msg = postValue sid (JStr msg) JUndefined"

text \<open>A request without the key header, and a body without a message.\<close>

definition withoutKey :: Request where
  "withoutKey =
     \<lparr>http_method = ''POST'', api_key = None,
      body = Some \<lparr>sessionId = Truthy ''s1'', message = Some \<lparr>m_text = JStr ''hello''\<rparr>,
                   metadata = JUndefined, b_text = Falsy\<rparr>\<rparr>"

definition withoutMessage :: Request where
  "withoutMessage =
     \<lparr>http_method = ''POST'', api_key = Some ''dev-key'',
      body = Some \<lparr>sessionId = Truthy ''s1'', message = None,
                   metadata = JUndefined, b_text = Falsy\<rparr>\<rparr>"

text \<open>
  Calls handled in turn: five inbound messages of session \<open>s1\<close>, one of session \<open>s2\<close>,
  and two requests that the guards turn away.
\<close>

definition exampleCalls :: "(fetch_result \<times> Request) list" where
  "exampleCalls =
     [(FetchRejected, post ''s1'' ''Your account is BLOCKED''),
      (FetchRejected, post ''s2'' ''hello''),
      (JsonRejected, post ''s1'' ''share the otp''),
      (FetchRejected, withoutKey),
      (backendSays ''Which bank is this?'', post ''s1'' ''click the link''),
      (FetchRejected, withoutMessage),
      (FetchRejected, post ''s1'' ''urgent''),
      (FetchRejected, post ''s1'' ''you won'')]"


text \<open>The first six calls of the example: three inbound messages of \<open>s1\<close>.\<close>

definition examplePrefix :: "event list" where
  "examplePrefix = inTurn 0 (take 6 exampleCalls)"

text \<open>Events without any inbound message of session \<open>s1\<close>.\<close>

definition otherRun :: "event list" where
  "otherRun = inTurn 0 [(FetchRejected, withoutKey), (FetchRejected, post ''s2'' ''hello'')]"

text \<open>Four messages without any pattern of the rule table, handled in turn.\<close>

definition quietRun :: "event list" where
  "quietRun =
     inTurn 0
       [(FetchRejected, post ''s1'' ''hello''),
        (FetchRejected, post ''s1'' ''how are you''),
        (FetchRejected, post ''s1'' ''fine''),
        (FetchRejected, post ''s1'' ''bye'')]"

text \<open>The store after the four quiet messages: session \<open>s1\<close> is finalized.\<close>

definition closedStore :: Store where
  "closedStore = store (fst (exec asciiLower initial quietRun))"

text \<open>The system after the four quiet messages: no call is suspended.\<close>

definition closedSystem :: System where
  "closedSystem = fst (exec asciiLower initial quietRun)"

text \<open>
  The system after three quiet messages and the arrival of the fourth, whose call waits
  for the backend.
\<close>

definition waitingSystem :: System where
  "waitingSystem = fst (exec asciiLower initial (take 10 quietRun))"

text \<open>The store after three of them: the next message of \<open>s1\<close> is the fourth.\<close>

definition thirdStore :: Store where
  "thirdStore = store (fst (exec asciiLower initial (take 9 quietRun)))"

text \<open>
  Three messages handled in turn, then two calls of the same session that overlap: the
  second arrives while the first waits for the backend.
\<close>

definition overlapRun :: "event list" where
  "overlapRun =
     take 9 quietRun
     @ [Arrive (post ''s1'' ''fine''), Arrive (post ''s1'' ''bye''),
        GeminiSettles 3 FetchRejected, GuviSettles 3, GeminiSettles 4 FetchRejected]"


text \<open>The example calls, handled in turn after the four quiet messages.\<close>

definition laterRun :: "event list" where
  "laterRun = inTurn 4 exampleCalls"

text \<open>Three messages, a request whose text is a number, and one more message, in turn.\<close>

definition numberRun :: "event list" where
  "numberRun =
     take 9 quietRun
     @ inTurn 3 [(FetchRejected, postValue ''s1'' (JNum 123) JUndefined),
                 (FetchRejected, post ''s1'' ''bye'')]"

text \<open>A GET without key or body, as a liveness probe sends it.\<close>

definition probe :: Request where
  "probe = \<lparr>http_method = ''GET'', api_key = None, body = None\<rparr>"

text \<open>
  A POST with a key that is not the accepted one, a POST with the accepted key and no
  top-level \<open>text\<close>, and a request with another method.
\<close>

definition wrongKey :: Request where
  "wrongKey =
     \<lparr>http_method = ''POST'', api_key = Some ''guess'',
      body = Some \<lparr>sessionId = Truthy ''s1'', message = Some \<lparr>m_text = JStr ''hello''\<rparr>,
                   metadata = JUndefined, b_text = Truthy ''hello''\<rparr>\<rparr>"

definition withoutText :: Request where
  "withoutText =
     \<lparr>http_method = ''POST'', api_key = Some ''dev-key'',
      body = Some \<lparr>sessionId = Truthy ''s1'', message = Some \<lparr>m_text = JStr ''hello''\<rparr>,
                   metadata = JUndefined, b_text = Falsy\<rparr>\<rparr>"

definition deleteRequest :: Request where
  "deleteRequest = \<lparr>http_method = ''DELETE'', api_key = Some ''dev-key'', body = None\<rparr>"

text \<open>A \<open>JSON.parse\<close> that throws on every text.\<close>

definition parseNothing :: "jsval \<Rightarrow> jsval option" where
  "parseNothing v = None"

section \<open>Properties\<close>

subsection \<open>Sets kept as lists\<close>

lemma set_Set_add: "set (Set_add x xs) = insert x (set xs)"
  by (auto simp: Set_add_def)

lemma prefix_Set_add: "prefix xs (Set_add x xs)"
  by (simp add: Set_add_def)

lemma distinct_Set_add: "distinct xs \<Longrightarrow> distinct (Set_add x xs)"
  by (simp add: Set_add_def)

subsection \<open>Substring tests and letter case\<close>

lemma test_sublist: "test p s = sublist p s"
  by (induction s) (auto simp: sublist_Cons_right)

lemma lower_lower: "lower_char (lower_char c) = lower_char c"
  by (auto simp: lower_char_def)

lemma lower_upper: "lower_char (upper_char c) = lower_char c"
  by (auto simp: lower_char_def upper_char_def)

lemma asciiLower_idem: "asciiLower (asciiLower s) = asciiLower s"
  by (simp add: asciiLower_def lower_lower)

lemma asciiLower_upper: "asciiLower (asciiUpper s) = asciiLower s"
  by (simp add: asciiLower_def asciiUpper_def lower_upper)

lemma lowering_asciiLower: "lowering asciiLower"
  by (simp add: lowering_def asciiLower_idem)

lemma lowering_upper: "lowering f \<Longrightarrow> f (asciiUpper s) = f s"
  by (metis asciiLower_upper lowering_def)

subsection \<open>Extraction\<close>

lemma addRequested_fields:
  "turns (addRequested h t s) = turns s"
  "finalized (addRequested h t s) = finalized s"
  "scamIndicators (addRequested h t s) = scamIndicators s"
  "set (requestedData (addRequested h t s)) = (if h then {t} else {}) \<union> set (requestedData s)"
  by (simp_all add: addRequested_def set_Set_add)

lemma addIndicator_fields:
  "turns (addIndicator h t s) = turns s"
  "finalized (addIndicator h t s) = finalized s"
  "requestedData (addIndicator h t s) = requestedData s"
  "set (scamIndicators (addIndicator h t s)) = (if h then {t} else {}) \<union> set (scamIndicators s)"
  by (simp_all add: addIndicator_def set_Set_add)

lemma prefix_addRequested: "prefix (requestedData s) (requestedData (addRequested h t s))"
  by (simp add: addRequested_def prefix_Set_add)

lemma prefix_addIndicator: "prefix (scamIndicators s) (scamIndicators (addIndicator h t s))"
  by (simp add: addIndicator_def prefix_Set_add)

lemma extraction_turns: "turns (extraction l s) = turns s"
  by (simp add: extraction_def addRequested_fields addIndicator_fields)

lemma extraction_finalized: "finalized (extraction l s) = finalized s"
  by (simp add: extraction_def addRequested_fields addIndicator_fields)

lemma extraction_requested:
  "set (requestedData (extraction l s)) =
     set (requestedData s) \<union> set (requestedData (extraction l newSession))"
  by (simp add: extraction_def addRequested_fields addIndicator_fields newSession_def Un_ac)

lemma extraction_indicators:
  "set (scamIndicators (extraction l s)) =
     set (scamIndicators s) \<union> set (scamIndicators (extraction l newSession))"
  by (simp add: extraction_def addRequested_fields addIndicator_fields newSession_def Un_ac)

lemma prefix_extraction_requested: "prefix (requestedData s) (requestedData (extraction l s))"
  unfolding extraction_def addIndicator_fields
  by (blast intro: prefix_order.order_trans prefix_addRequested)

lemma prefix_extraction_indicators: "prefix (scamIndicators s) (scamIndicators (extraction l s))"
  unfolding extraction_def
  apply (rule prefix_order.order_trans [OF _ prefix_addIndicator])
  apply (rule prefix_order.order_trans [OF _ prefix_addIndicator])
  apply (rule prefix_order.order_trans [OF _ prefix_addIndicator])
  apply (simp add: addRequested_fields)
  done

subsection \<open>The handler up to its first await\<close>

lemma advance_turns: "turns (advance f msg s) = Suc (turns s)"
  by (simp add: advance_def extraction_turns)

lemma advance_finalized: "finalized (advance f msg s) = finalized s"
  by (simp add: advance_def extraction_finalized)

lemma advance_indicators:
  "set (scamIndicators (advance f msg s)) = set (scamIndicators s) \<union> set (fst (extractIndicators f msg))"
  using extraction_indicators [of "f msg" "s\<lparr>turns := turns s + 1\<rparr>"]
  by (simp add: advance_def extractIndicators_def Let_def)

lemma advance_requested:
  "set (requestedData (advance f msg s)) = set (requestedData s) \<union> set (snd (extractIndicators f msg))"
  using extraction_requested [of "f msg" "s\<lparr>turns := turns s + 1\<rparr>"]
  by (simp add: advance_def extractIndicators_def Let_def)

lemma prefix_advance:
  "prefix (scamIndicators s) (scamIndicators (advance f msg s))"
  "prefix (requestedData s) (requestedData (advance f msg s))"
  using prefix_extraction_indicators [of "s\<lparr>turns := turns s + 1\<rparr>" "f msg"]
    prefix_extraction_requested [of "s\<lparr>turns := turns s + 1\<rparr>" "f msg"]
  by (simp_all add: advance_def)

lemma arrive_accepted:
  "accepted req = Some (sid, tx, md) \<Longrightarrow> arrive f req st = engage f sid tx md st"
  by (auto simp: accepted_def arrive_def split: if_splits option.splits stringish.splits)

lemma arrive_not_accepted:
  "accepted req = None \<Longrightarrow> snd (arrive f req st) = st \<and> (\<exists>out. fst (arrive f req st) = Inl out)"
  by (auto simp: accepted_def arrive_def split: if_splits option.splits stringish.splits)

lemma accepted_truthy: "accepted req = Some (sid, tx, md) \<Longrightarrow> truthy tx"
  by (auto simp: accepted_def split: if_splits option.splits stringish.splits)

lemma inbound_accepted:
  "inbound req = Some (sid, msg, md) \<longleftrightarrow> accepted req = Some (sid, JStr msg, md)"
proof (cases "accepted req")
  case None
  then show ?thesis by (simp add: inbound_def)
next
  case (Some t)
  obtain a tx m where t: "t = (a, tx, m)" by (cases t)
  show ?thesis by (cases tx) (auto simp: inbound_def Some t)
qed

lemma engage_inherited:
  assumes "st sid = None" and "sid \<in> set inheritedKeys"
  shows "snd (engage f sid tx md st) = st"
    and "fst (engage f sid tx md st) = Inl (Thrown TypeError)
         \<or> fst (engage f sid tx md st) = Inr \<lparr>c_key = None, c_metadata = md, c_base = genericReply\<rparr>"
  using assms by (auto simp: engage_def split: option.splits)

lemma engage_string:
  assumes "st sid \<noteq> None \<or> sid \<notin> set inheritedKeys"
  shows "engage f sid (JStr msg) md st =
     (Inr \<lparr>c_key = Some sid, c_metadata = md,
           c_base = baseReply (Suc (turns (sessionOf st sid)))\<rparr>,
      st(sid \<mapsto> advance f msg (sessionOf st sid)))"
  using assms by (auto simp: engage_def Let_def advance_def extraction_turns)

lemma engage_other:
  assumes "st sid \<noteq> None \<or> sid \<notin> set inheritedKeys" and "stringOf tx = None"
  shows "engage f sid tx md st =
     (Inl (Thrown TypeError),
      st(sid \<mapsto> (sessionOf st sid)\<lparr>turns := Suc (turns (sessionOf st sid))\<rparr>))"
  using assms by (auto simp: engage_def Let_def)

text \<open>What one arrival does to the session under an identifier.\<close>

lemma arrive_lookup:
  "snd (arrive f req st) sid =
     (if acceptedFor sid req \<and> (st sid \<noteq> None \<or> sid \<notin> set inheritedKeys)
      then (case inbound req of
              None \<Rightarrow> Some ((sessionOf st sid)\<lparr>turns := Suc (turns (sessionOf st sid))\<rparr>)
            | Some t \<Rightarrow> Some (advance f (fst (snd t)) (sessionOf st sid)))
      else st sid)"
proof (cases "accepted req")
  case None
  then show ?thesis by (simp add: arrive_not_accepted acceptedFor_def)
next
  case (Some t)
  obtain sid' tx md where t: "t = (sid', tx, md)" by (cases t)
  note a = arrive_accepted [OF Some [unfolded t]]
  show ?thesis
  proof (cases "st sid' = None \<and> sid' \<in> set inheritedKeys")
    case True
    then show ?thesis
      using engage_inherited(1) [of st sid' f tx md]
      by (auto simp: a acceptedFor_def Some t)
  next
    case False
    then have c: "st sid' \<noteq> None \<or> sid' \<notin> set inheritedKeys" by auto
    show ?thesis
    proof (cases "stringOf tx")
      case None
      then have "inbound req = None" by (simp add: inbound_def Some t)
      then show ?thesis
        using c None
        by (simp add: a engage_other [where st=st and sid=sid'] acceptedFor_def Some t)
    next
      case (Some msg)
      then have tx: "tx = JStr msg" by (cases tx) auto
      have "inbound req = Some (sid', msg, md)"
        by (simp add: inbound_accepted \<open>accepted req = Some t\<close> t tx)
      then show ?thesis
        using c
        by (simp add: a tx engage_string [where st=st and sid=sid'] acceptedFor_def
            \<open>accepted req = Some t\<close> t)
    qed
  qed
qed

subsection \<open>The handler after the backend has answered\<close>

lemma afterGemini_lookup:
  "fst (snd (afterGemini c g st)) sid =
     (case st sid of
        None \<Rightarrow> None
      | Some s \<Rightarrow> Some (s\<lparr>finalized := finalized s \<or> (c_key c = Some sid \<and> 4 \<le> turns s)\<rparr>))"
proof (cases "c_key c")
  case None
  then show ?thesis by (simp add: afterGemini_def split: option.splits)
next
  case (Some a)
  show ?thesis
  proof (cases "a = sid")
    case True
    then show ?thesis
      using Some
      by (auto simp: afterGemini_def Let_def sessionOf_def newSession_def
          split: option.splits sum.splits)
  next
    case False
    then show ?thesis
      using Some
      by (auto simp: afterGemini_def Let_def split: option.splits sum.splits)
  qed
qed

lemma afterGemini_sent:
  "snd (snd (afterGemini c g st)) =
     (case c_key c of
        None \<Rightarrow> []
      | Some sid \<Rightarrow>
          if 4 \<le> turns (sessionOf st sid) \<and> \<not> finalized (sessionOf st sid)
             \<and> c_metadata c \<noteq> JNull \<and> c_metadata c \<noteq> JUndefined
          then [report sid (c_metadata c) ((sessionOf st sid)\<lparr>finalized := True\<rparr>)]
          else [])"
  by (cases "c_key c")
    (auto simp: afterGemini_def Let_def intelligencePayload_def split: sum.splits)

lemma afterGemini_result:
  "fst (afterGemini c g st) =
     (case c_key c of
        None \<Rightarrow> Inl (Response 200 (successBody (orElse g (JStr (c_base c)))))
      | Some sid \<Rightarrow>
          if 4 \<le> turns (sessionOf st sid) \<and> \<not> finalized (sessionOf st sid)
          then (if c_metadata c = JNull \<or> c_metadata c = JUndefined
                then Inl (Thrown TypeError) else Inr (orElse g (JStr (c_base c))))
          else Inl (Response 200 (successBody (orElse g (JStr (c_base c))))))"
  by (cases "c_key c")
    (auto simp: afterGemini_def Let_def intelligencePayload_def split: sum.splits)

lemma afterGemini_store:
  "fst (snd (afterGemini c g st)) =
     (case c_key c of
        None \<Rightarrow> st
      | Some sid \<Rightarrow>
          if 4 \<le> turns (sessionOf st sid) \<and> \<not> finalized (sessionOf st sid)
          then st(sid \<mapsto> (sessionOf st sid)\<lparr>finalized := True\<rparr>)
          else st)"
  by (cases "c_key c")
    (auto simp: afterGemini_def Let_def split: sum.splits)

subsection \<open>One step of the system\<close>

lemma posted_append: "posted (xs @ ys) = posted xs @ posted ys"
  by (induction xs rule: posted.induct) simp_all

lemma posted_map: "posted (map Posted ps) = ps"
  by (induction ps) simp_all

lemma onArrive_store: "store (fst (onArrive f req sys)) = snd (arrive f req (store sys))"
  by (simp add: onArrive_def Let_def split: sum.splits)

lemma onArrive_posted: "posted (snd (onArrive f req sys)) = []"
  by (simp add: onArrive_def Let_def split: sum.splits)

lemma onGemini_store: "store (fst (onGemini k c g sys)) = fst (snd (afterGemini c g (store sys)))"
  by (simp add: onGemini_def Let_def split: sum.splits)

lemma onGemini_posted: "posted (snd (onGemini k c g sys)) = snd (snd (afterGemini c g (store sys)))"
  by (simp add: onGemini_def Let_def posted_append posted_map split: sum.splits)

text \<open>The call that a settling of the backend resumes, with the value it resumes with.\<close>

lemma step_cases:
  obtains (arrive) req where "ev = Arrive req"
      "store (fst (step f sys ev)) = snd (arrive f req (store sys))"
      "posted (snd (step f sys ev)) = []"
  | (resume) k r c g where "ev = GeminiSettles k r" "calls sys k = Some (AtGemini c)"
      "geminiReplyOf r = Some g"
      "store (fst (step f sys ev)) = fst (snd (afterGemini c g (store sys)))"
      "posted (snd (step f sys ev)) = snd (snd (afterGemini c g (store sys)))"
  | (idle) "arrivals [ev] = []" "store (fst (step f sys ev)) = store sys"
      "posted (snd (step f sys ev)) = []"
proof (cases ev)
  case (Arrive req)
  then show ?thesis using arrive by (simp add: onArrive_store onArrive_posted)
next
  case (GeminiSettles k r)
  show ?thesis
  proof (cases "calls sys k")
    case None
    then show ?thesis using idle GeminiSettles by simp
  next
    case (Some x)
    show ?thesis
    proof (cases x)
      case (AtGemini c)
      show ?thesis
      proof (cases "geminiReplyOf r")
        case None
        then show ?thesis using idle GeminiSettles Some AtGemini by simp
      next
        case (Some g)
        then show ?thesis
          using resume [of k r c g] GeminiSettles \<open>calls sys k = Some x\<close> AtGemini
          by (simp add: onGemini_store onGemini_posted)
      qed
    next
      case (AtGuvi reply)
      then show ?thesis using idle GeminiSettles Some by simp
    qed
  qed
next
  case (GuviSettles k)
  then show ?thesis using idle by (auto split: option.splits suspended.splits)
qed

lemma processed_Nil: "processed sid [] = 0"
  by (simp add: processed_def)

lemma processed_Cons: "processed sid (e # es) = processed sid [e] + processed sid es"
  by (cases e) (simp_all add: processed_def)

lemma processed_Arrive: "processed sid [Arrive req] = (if acceptedFor sid req then 1 else 0)"
  by (simp add: processed_def)

lemma processed_idle: "arrivals [ev] = [] \<Longrightarrow> processed sid [ev] = 0"
  by (simp add: processed_def)

lemma turnCounter_sessionOf: "turnCounter st sid = turns (sessionOf st sid)"
  by (simp add: turnCounter_def sessionOf_def newSession_def split: option.splits)

lemma step_turnCounter:
  assumes "store sys sid \<noteq> None \<or> sid \<notin> set inheritedKeys"
  shows "turnCounter (store (fst (step f sys ev))) sid = turnCounter (store sys) sid + processed sid [ev]"
    and "(store (fst (step f sys ev)) sid = None) = (store sys sid = None \<and> processed sid [ev] = 0)"
proof -
  show "turnCounter (store (fst (step f sys ev))) sid = turnCounter (store sys) sid + processed sid [ev]"
  proof (cases rule: step_cases [where ev=ev and f=f and sys=sys])
    case (arrive req)
    then show ?thesis
      using assms
      by (auto simp: arrive_lookup processed_Arrive turnCounter_def advance_turns sessionOf_def
          newSession_def split: option.splits)
  next
    case (resume k r c g)
    then show ?thesis
      by (simp add: afterGemini_lookup turnCounter_def processed_def split: option.splits)
  next
    case idle
    then show ?thesis by (simp add: processed_idle)
  qed
  show "(store (fst (step f sys ev)) sid = None) = (store sys sid = None \<and> processed sid [ev] = 0)"
  proof (cases rule: step_cases [where ev=ev and f=f and sys=sys])
    case (arrive req)
    then show ?thesis
      using assms
      by (auto simp: arrive_lookup processed_Arrive split: option.splits)
  next
    case (resume k r c g)
    then show ?thesis
      by (simp add: afterGemini_lookup processed_def split: option.splits)
  next
    case idle
    then show ?thesis by (simp add: processed_idle)
  qed
qed

lemma step_keeps_absent:
  assumes "store sys sid = None" and "sid \<in> set inheritedKeys"
  shows "store (fst (step f sys ev)) sid = None"
proof (cases rule: step_cases [where ev=ev and f=f and sys=sys])
  case (arrive req)
  then show ?thesis using assms by (simp add: arrive_lookup)
next
  case (resume k r c g)
  then show ?thesis using assms(1) by (simp add: afterGemini_lookup)
next
  case idle
  then show ?thesis using assms(1) by simp
qed

lemma step_grows:
  assumes "store sys sid = Some s"
  shows "\<exists>s'. store (fst (step f sys ev)) sid = Some s'
           \<and> prefix (scamIndicators s) (scamIndicators s')
           \<and> prefix (requestedData s) (requestedData s')
           \<and> (finalized s \<longrightarrow> finalized s')"
proof (cases rule: step_cases [where ev=ev and f=f and sys=sys])
  case (arrive req)
  then show ?thesis
    using assms
    by (auto simp: arrive_lookup sessionOf_def prefix_advance advance_finalized
        split: option.splits)
next
  case (resume k r c g)
  then show ?thesis using assms by (simp add: afterGemini_lookup)
next
  case idle
  then show ?thesis using assms by simp
qed




lemma closed_sessionOf: "closed st sid = finalized (sessionOf st sid)"
  by (simp add: closed_def sessionOf_def newSession_def split: option.splits)

lemma step_posted:
  assumes "p \<in> set (posted (snd (step f sys ev)))"
  obtains k r c g sid where "ev = GeminiSettles k r" "calls sys k = Some (AtGemini c)"
    "geminiReplyOf r = Some g" "c_key c = Some sid"
    "4 \<le> turns (sessionOf (store sys) sid)" "\<not> finalized (sessionOf (store sys) sid)"
    "c_metadata c \<noteq> JNull"
    "p = report sid (c_metadata c) ((sessionOf (store sys) sid)\<lparr>finalized := True\<rparr>)"
    "store (fst (step f sys ev)) = fst (snd (afterGemini c g (store sys)))"
proof (cases rule: step_cases [where ev=ev and f=f and sys=sys])
  case (arrive req)
  with assms show ?thesis by simp
next
  case (resume k r c g)
  with assms have m: "p \<in> set (snd (snd (afterGemini c g (store sys))))" by simp
  then obtain sid where "c_key c = Some sid"
    by (cases "c_key c") (auto simp: afterGemini_sent)
  with m that [of k r c g sid] resume show ?thesis
    by (auto simp: afterGemini_sent split: if_splits)
next
  case idle
  with assms show ?thesis by simp
qed


subsection \<open>Lists of events\<close>

lemma exec_turnCounter:
  "store sys sid \<noteq> None \<or> sid \<notin> set inheritedKeys \<Longrightarrow>
     turnCounter (store (fst (exec f sys es))) sid = turnCounter (store sys) sid + processed sid es
     \<and> (store (fst (exec f sys es)) sid = None) = (store sys sid = None \<and> processed sid es = 0)"
proof (induction es arbitrary: sys)
  case Nil
  then show ?case by (simp add: processed_Nil)
next
  case (Cons e es)
  let ?sys = "fst (step f sys e)"
  note s = step_turnCounter [where sys=sys and sid=sid and f=f and ev=e, OF Cons.prems]
  have "store ?sys sid \<noteq> None \<or> sid \<notin> set inheritedKeys"
    using s(2) Cons.prems by auto
  from Cons.IH [of ?sys, OF this] s show ?case
    by (auto simp: Let_def processed_Cons [of sid e es])
qed

lemma exec_keeps_absent:
  "store sys sid = None \<Longrightarrow> sid \<in> set inheritedKeys \<Longrightarrow> store (fst (exec f sys es)) sid = None"
proof (induction es arbitrary: sys)
  case Nil
  then show ?case by simp
next
  case (Cons e es)
  let ?sys = "fst (step f sys e)"
  have "store ?sys sid = None"
    using Cons.prems by (rule step_keeps_absent [where sys=sys and sid=sid])
  from Cons.IH [of ?sys, OF this Cons.prems(2)] show ?case by (simp add: Let_def)
qed

lemma exec_grows:
  "store sys sid = Some s \<Longrightarrow>
     \<exists>s'. store (fst (exec f sys es)) sid = Some s'
       \<and> prefix (scamIndicators s) (scamIndicators s')
       \<and> prefix (requestedData s) (requestedData s')
       \<and> (finalized s \<longrightarrow> finalized s')"
proof (induction es arbitrary: sys s)
  case Nil
  then show ?case by simp
next
  case (Cons e es)
  let ?sys = "fst (step f sys e)"
  from step_grows [where sys=sys and sid=sid and f=f and ev=e, OF Cons.prems] obtain s1 where
    s1: "store ?sys sid = Some s1" "prefix (scamIndicators s) (scamIndicators s1)"
      "prefix (requestedData s) (requestedData s1)" "finalized s \<longrightarrow> finalized s1"
    by blast
  from Cons.IH [of ?sys s1, OF s1(1)] obtain s2 where
    s2: "store (fst (exec f ?sys es)) sid = Some s2"
      "prefix (scamIndicators s1) (scamIndicators s2)"
      "prefix (requestedData s1) (requestedData s2)" "finalized s1 \<longrightarrow> finalized s2"
    by blast
  have "prefix (scamIndicators s) (scamIndicators s2)"
    using s1(2) s2(2) by (rule prefix_order.order_trans)
  moreover have "prefix (requestedData s) (requestedData s2)"
    using s1(3) s2(3) by (rule prefix_order.order_trans)
  ultimately show ?case using s2(1) s1(4) s2(4) by (simp add: Let_def)
qed


lemma exec_posted:
  "p \<in> set (posted (snd (exec f sys es))) \<Longrightarrow>
     \<exists>sys' ev. p \<in> set (posted (snd (step f sys' ev)))"
proof (induction es arbitrary: sys)
  case Nil
  then show ?case by simp
next
  case (Cons e es)
  then show ?case by (auto simp: Let_def posted_append)
qed

subsection \<open>One call that runs without interruption\<close>

lemma handler_not_accepted:
  "accepted req = None \<Longrightarrow> snd (handler f w req st) = (st, [])"
  using arrive_not_accepted [of req f st]
  by (auto simp: handler_def split: prod.splits sum.splits)

lemma handler_unfold:
  "handler f w req st =
     (case fst (arrive f req st) of
        Inl out \<Rightarrow> (out, snd (arrive f req st), [])
      | Inr c \<Rightarrow>
          (case generateGeminiReply w (geminiPrompt (c_base c)) of
             None \<Rightarrow> (Unanswered, snd (arrive f req st), [])
           | Some g \<Rightarrow>
               ((case fst (afterGemini c g (snd (arrive f req st))) of
                   Inl out \<Rightarrow> out
                 | Inr reply \<Rightarrow> if guviSettles w then afterGuvi reply else Unanswered),
                fst (snd (afterGemini c g (snd (arrive f req st)))),
                snd (snd (afterGemini c g (snd (arrive f req st)))))))"
  by (simp add: handler_def split: prod.splits sum.splits option.splits)

lemma handler_session:
  assumes "inbound req = Some (sid, msg, md)"
    and "st sid \<noteq> None \<or> sid \<notin> set inheritedKeys"
  shows "handler f w req st =
     (case generateGeminiReply w (geminiPrompt (baseReply (Suc (turns (sessionOf st sid))))) of
        None \<Rightarrow> (Unanswered, st(sid \<mapsto> advance f msg (sessionOf st sid)), [])
      | Some g \<Rightarrow>
          if 3 \<le> turns (sessionOf st sid) \<and> \<not> finalized (sessionOf st sid) then
            (if md = JNull \<or> md = JUndefined then
               (Thrown TypeError,
                st(sid \<mapsto> (advance f msg (sessionOf st sid))\<lparr>finalized := True\<rparr>), [])
             else
               (if guviSettles w
                then Response 200 (successBody
                       (orElse g (JStr (baseReply (Suc (turns (sessionOf st sid)))))))
                else Unanswered,
                st(sid \<mapsto> (advance f msg (sessionOf st sid))\<lparr>finalized := True\<rparr>),
                [report sid md ((advance f msg (sessionOf st sid))\<lparr>finalized := True\<rparr>)]))
          else
            (Response 200 (successBody
               (orElse g (JStr (baseReply (Suc (turns (sessionOf st sid))))))),
             st(sid \<mapsto> advance f msg (sessionOf st sid)), []))"
proof -
  from assms(1) have a: "accepted req = Some (sid, JStr msg, md)"
    by (simp add: inbound_accepted)
  let ?a = "advance f msg (sessionOf st sid)"
  have so: "sessionOf (st(sid \<mapsto> ?a)) sid = ?a"
    by (simp add: sessionOf_def)
  have four: "(4 \<le> Suc (turns (sessionOf st sid))) = (3 \<le> turns (sessionOf st sid))"
    by arith
  have ar: "arrive f req st =
      (Inr \<lparr>c_key = Some sid, c_metadata = md,
            c_base = baseReply (Suc (turns (sessionOf st sid)))\<rparr>, st(sid \<mapsto> ?a))"
    by (simp add: arrive_accepted [OF a] engage_string [where st=st and sid=sid, OF assms(2)])
  show ?thesis
  proof (cases "generateGeminiReply w (geminiPrompt (baseReply (Suc (turns (sessionOf st sid)))))")
    case None
    then show ?thesis
      unfolding handler_unfold ar fst_conv snd_conv by simp
  next
    case (Some g)
    show ?thesis
    proof (cases "3 \<le> turns (sessionOf st sid) \<and> \<not> finalized (sessionOf st sid)")
      case True
      then show ?thesis
        unfolding handler_unfold ar fst_conv snd_conv
        by (simp add: Some afterGemini_result afterGemini_store afterGemini_sent so
            advance_turns advance_finalized four afterGuvi_def)
    next
      case False
      then show ?thesis
        unfolding handler_unfold ar fst_conv snd_conv
        by (auto simp: Some afterGemini_result afterGemini_store afterGemini_sent so
            advance_turns advance_finalized four afterGuvi_def)
    qed
  qed
qed

lemma handler_other:
  assumes "accepted req = Some (sid, tx, md)" and "stringOf tx = None"
    and "st sid \<noteq> None \<or> sid \<notin> set inheritedKeys"
  shows "handler f w req st =
     (Thrown TypeError,
      st(sid \<mapsto> (sessionOf st sid)\<lparr>turns := Suc (turns (sessionOf st sid))\<rparr>), [])"
  by (simp add: handler_def arrive_accepted [OF assms(1)]
      engage_other [where st=st and sid=sid, OF assms(3,2)])

lemma handler_inherited:
  assumes "accepted req = Some (sid, tx, md)" and "st sid = None" and "sid \<in> set inheritedKeys"
  shows "snd (handler f w req st) = (st, [])"
    and "fst (handler f w req st) = Thrown TypeError
         \<or> fst (handler f w req st) = Unanswered
         \<or> (\<exists>g. generateGeminiReply w (geminiPrompt genericReply) = Some g
               \<and> fst (handler f w req st)
                   = Response 200 (successBody (orElse g (JStr genericReply))))"
proof -
  note e = engage_inherited [where st=st and sid=sid and f=f and tx=tx and md=md, OF assms(2,3)]
  show "snd (handler f w req st) = (st, [])"
    using e
    by (auto simp: handler_def arrive_accepted [OF assms(1)] afterGemini_def
        split: prod.splits sum.splits option.splits)
  show "fst (handler f w req st) = Thrown TypeError
         \<or> fst (handler f w req st) = Unanswered
         \<or> (\<exists>g. generateGeminiReply w (geminiPrompt genericReply) = Some g
               \<and> fst (handler f w req st)
                   = Response 200 (successBody (orElse g (JStr genericReply))))"
    using e
    by (auto simp: handler_def arrive_accepted [OF assms(1)] afterGemini_def
        split: prod.splits sum.splits option.splits)
qed

subsection \<open>Calls handled in turn\<close>

lemma consistent_empty: "consistent Map.empty"
  by (simp add: consistent_def)

lemma consistent_sessionOf:
  "consistent st \<Longrightarrow> finalized (sessionOf st sid) = (4 \<le> turns (sessionOf st sid))"
  by (auto simp: consistent_def sessionOf_def newSession_def split: option.splits)

lemma settled: "r \<noteq> Unsettled \<Longrightarrow> \<exists>g. geminiReplyOf r = Some g"
  by (cases r) simp_all

lemma handler_sent:
  assumes "p \<in> set (snd (snd (handler f w req st)))"
  obtains sid msg md where "inbound req = Some (sid, msg, md)"
    "st sid \<noteq> None \<or> sid \<notin> set inheritedKeys"
    "3 \<le> turns (sessionOf st sid)" "\<not> finalized (sessionOf st sid)" "md \<noteq> JNull"
    "p = report sid md ((advance f msg (sessionOf st sid))\<lparr>finalized := True\<rparr>)"
    "fst (snd (handler f w req st)) =
       st(sid \<mapsto> (advance f msg (sessionOf st sid))\<lparr>finalized := True\<rparr>)"
proof (cases "accepted req")
  case None
  with assms show ?thesis by (simp add: handler_not_accepted)
next
  case (Some t)
  obtain sid tx md where t: "t = (sid, tx, md)" by (cases t)
  note a = Some [unfolded t]
  show ?thesis
  proof (cases "st sid = None \<and> sid \<in> set inheritedKeys")
    case True
    with assms a show ?thesis by (simp add: handler_inherited(1) [where sid=sid and tx=tx and md=md])
  next
    case False
    then have c: "st sid \<noteq> None \<or> sid \<notin> set inheritedKeys" by auto
    show ?thesis
    proof (cases "stringOf tx")
      case None
      with assms show ?thesis
        by (simp add: handler_other [where st=st and sid=sid, OF a None c])
    next
      case (Some msg)
      then have tx: "tx = JStr msg" by (cases tx) auto
      have i: "inbound req = Some (sid, msg, md)"
        using a by (simp add: inbound_accepted tx)
      note h = handler_session [where st=st and sid=sid and f=f and w=w, OF i c]
      from assms show ?thesis
        using that [of sid msg md] i c
        by (auto simp: h split: option.splits if_splits)
    qed
  qed
qed

lemma handler_report_four:
  assumes "consistent st" and "p \<in> set (snd (snd (handler f w req st)))"
  shows "totalTurns p = 4"
proof -
  from assms(2) obtain sid msg md where
    t: "3 \<le> turns (sessionOf st sid)" and n: "\<not> finalized (sessionOf st sid)"
    and p: "p = report sid md ((advance f msg (sessionOf st sid))\<lparr>finalized := True\<rparr>)"
    by (rule handler_sent)
  from n have "\<not> 4 \<le> turns (sessionOf st sid)"
    using assms(1) by (simp add: consistent_sessionOf)
  with t have "turns (sessionOf st sid) = 3" by simp
  then show ?thesis by (simp add: p report_def advance_turns)
qed

lemma generate_worldOf: "generateGeminiReply (worldOf r) prompt = geminiReplyOf r"
  by (simp add: generateGeminiReply_def worldOf_def)

lemma handler_consistent:
  assumes "consistent st" and "ordinary (r, req)"
  shows "consistent (fst (snd (handler f (worldOf r) req st)))"
proof (cases "accepted req")
  case None
  then show ?thesis using assms(1) by (simp add: handler_not_accepted)
next
  case (Some t)
  obtain sid tx md where t: "t = (sid, tx, md)" by (cases t)
  note a = Some [unfolded t]
  show ?thesis
  proof (cases "st sid = None \<and> sid \<in> set inheritedKeys")
    case True
    then show ?thesis
      using assms(1) a by (simp add: handler_inherited(1) [where sid=sid and tx=tx and md=md])
  next
    case False
    then have c: "st sid \<noteq> None \<or> sid \<notin> set inheritedKeys" by auto
    from assms(2) Some obtain u where "inbound req = Some u"
      by (auto simp: ordinary_def)
    then obtain msg where i: "inbound req = Some (sid, msg, md)"
      using a by (cases u) (auto simp: inbound_def split: option.splits)
    from assms(2) obtain g where g: "geminiReplyOf r = Some g"
      using settled by (auto simp: ordinary_def)
    have f: "finalized (sessionOf st sid) = (4 \<le> turns (sessionOf st sid))"
      using assms(1) by (rule consistent_sessionOf)
    show ?thesis
      using assms(1) f
      by (auto simp: handler_session [where st=st and sid=sid, OF i c] generate_worldOf g
          consistent_def advance_turns advance_finalized)
  qed
qed

lemma exec_append:
  "exec f sys (xs @ ys) =
     (fst (exec f (fst (exec f sys xs)) ys),
      snd (exec f sys xs) @ snd (exec f (fst (exec f sys xs)) ys))"
  by (induction xs arbitrary: sys) (simp_all add: Let_def)

text \<open>A call handled in turn is one call of the handler without interruption.\<close>

lemma inTurn_block:
  assumes "calls sys = Map.empty" and "arrived sys = k" and "r \<noteq> Unsettled"
  shows "store (fst (exec f sys [Arrive req, GeminiSettles k r, GuviSettles k]))
           = fst (snd (handler f (worldOf r) req (store sys)))"
    and "posted (snd (exec f sys [Arrive req, GeminiSettles k r, GuviSettles k]))
           = snd (snd (handler f (worldOf r) req (store sys)))"
    and "calls (fst (exec f sys [Arrive req, GeminiSettles k r, GuviSettles k])) = Map.empty"
    and "arrived (fst (exec f sys [Arrive req, GeminiSettles k r, GuviSettles k])) = Suc k"
proof -
  from assms(3) obtain g where g: "geminiReplyOf r = Some g"
    using settled by blast
  show "store (fst (exec f sys [Arrive req, GeminiSettles k r, GuviSettles k]))
           = fst (snd (handler f (worldOf r) req (store sys)))"
    using assms(1,2)
    by (auto simp: Let_def onArrive_def onGemini_def handler_unfold generate_worldOf g
        split: sum.splits)
  show "posted (snd (exec f sys [Arrive req, GeminiSettles k r, GuviSettles k]))
           = snd (snd (handler f (worldOf r) req (store sys)))"
    using assms(1,2)
    by (auto simp: Let_def onArrive_def onGemini_def handler_unfold generate_worldOf g
        posted_append posted_map split: sum.splits)
  show "calls (fst (exec f sys [Arrive req, GeminiSettles k r, GuviSettles k])) = Map.empty"
    using assms(1,2)
    by (auto simp: Let_def onArrive_def onGemini_def g split: sum.splits)
  show "arrived (fst (exec f sys [Arrive req, GeminiSettles k r, GuviSettles k])) = Suc k"
    using assms(1,2)
    by (auto simp: Let_def onArrive_def onGemini_def g split: sum.splits)
qed

lemma inTurn_four:
  assumes "list_all ordinary cs" and "calls sys = Map.empty" and "arrived sys = k"
    and "consistent (store sys)"
    and "p \<in> set (posted (snd (exec f sys (inTurn k cs))))"
  shows "totalTurns p = 4"
  using assms
proof (induction cs arbitrary: sys k)
  case Nil
  then show ?case by simp
next
  case (Cons c cs)
  let ?b = "[Arrive (snd c), GeminiSettles k (fst c), GuviSettles k]"
  let ?sys = "fst (exec f sys ?b)"
  from Cons.prems(1) have o: "ordinary (fst c, snd c)" and os: "list_all ordinary cs"
    by simp_all
  then have r: "fst c \<noteq> Unsettled" by (simp add: ordinary_def)
  note b = inTurn_block [where sys=sys and k=k and r="fst c" and req="snd c" and f=f,
      OF Cons.prems(2,3) r]
  have cons: "consistent (store ?sys)"
    unfolding b(1) using Cons.prems(4) o by (rule handler_consistent)
  have "inTurn k (c # cs) = ?b @ inTurn (Suc k) cs" by simp
  then have "posted (snd (exec f sys (inTurn k (c # cs))))
      = posted (snd (exec f sys ?b)) @ posted (snd (exec f ?sys (inTurn (Suc k) cs)))"
    by (simp only: exec_append snd_conv posted_append)
  with Cons.prems(5) consider
    (here) "p \<in> set (snd (snd (handler f (worldOf (fst c)) (snd c) (store sys))))"
    | (later) "p \<in> set (posted (snd (exec f ?sys (inTurn (Suc k) cs))))"
    unfolding b(2) by auto
  then show ?case
  proof cases
    case here
    with Cons.prems(4) show ?thesis by (rule handler_report_four)
  next
    case later
    from Cons.IH [OF os b(3) b(4) cons later] show ?thesis .
  qed
qed









section \<open>The claims\<close>

subsection \<open>The extractor\<close>

lemma extractIndicators_sets:
  "set (fst (extractIndicators f msg)) =
     (if test ''link'' (f msg) \<or> test ''click'' (f msg)
      then {''Phishing Link''} else {})
     \<union> (if test ''blocked'' (f msg) \<or> test ''suspended'' (f msg)
           \<or> test ''urgent'' (f msg) \<or> test ''hours'' (f msg)
         then {''Threat / Urgency''} else {})
     \<union> (if test ''won'' (f msg) \<or> test ''prize'' (f msg)
           \<or> test ''reward'' (f msg)
         then {''Lottery Scam''} else {})"
  "set (snd (extractIndicators f msg)) =
     (if test ''otp'' (f msg) \<or> test ''one time password'' (f msg)
      then {''OTP''} else {})
     \<union> (if test ''upi'' (f msg) \<or> test ''account number'' (f msg)
           \<or> test ''bank'' (f msg)
         then {''Bank Details''} else {})"
  unfolding extractIndicators_def Let_def extraction_def fst_conv snd_conv
    addRequested_fields addIndicator_fields
  by (simp_all only: newSession_def Session.simps list.set Un_empty_right Un_empty_left Un_ac)

lemma extractIndicators_ascii:
  "lowering f \<Longrightarrow> ascii msg \<Longrightarrow> extractIndicators f msg = extractIndicators asciiLower msg"
  by (simp add: extractIndicators_def lowering_def)

lemma example_texts_ascii:
  "ascii ''Your account will be blocked in 24 hours, share OTP now''"
  "ascii ''Congrats you won a prize, click this link''"
  by (simp_all add: ascii_def)

lemma extractIndicators_blocked:
  "extractIndicators asciiLower ''Your account will be blocked in 24 hours, share OTP now'' =
     ([''Threat / Urgency''], [''OTP''])"
  by code_simp

lemma extractIndicators_prize:
  "extractIndicators asciiLower ''Congrats you won a prize, click this link'' =
     ([''Phishing Link'', ''Lottery Scam''], [])"
  by code_simp

text \<open>
  C7. For a runtime \<open>toLowerCase\<close> that lowers ASCII strings as JavaScript does and is
  not affected by lowering ASCII letters first, the indicator extractor is a function of
  the text alone, it does not depend on the case of ASCII letters, and its result is
  given by the rule table: each tag is present exactly when one of its patterns occurs in
  the lowered text. On the two example messages it yields the indicators
  \<open>{Threat / Urgency}\<close> with the requested data \<open>{OTP}\<close>, and the indicators
  \<open>{Lottery Scam, Phishing Link}\<close>.
\<close>

theorem extractIndicators_rule_table:
  assumes "lowering toLowerCase"
  shows "extractIndicators toLowerCase (asciiUpper msg) = extractIndicators toLowerCase msg
   \<and> extractIndicators toLowerCase (asciiLower msg) = extractIndicators toLowerCase msg
   \<and> set (fst (extractIndicators toLowerCase msg)) =
       (if test ''link'' (toLowerCase msg) \<or> test ''click'' (toLowerCase msg)
        then {''Phishing Link''} else {})
       \<union> (if test ''blocked'' (toLowerCase msg) \<or> test ''suspended'' (toLowerCase msg)
             \<or> test ''urgent'' (toLowerCase msg) \<or> test ''hours'' (toLowerCase msg)
           then {''Threat / Urgency''} else {})
       \<union> (if test ''won'' (toLowerCase msg) \<or> test ''prize'' (toLowerCase msg)
             \<or> test ''reward'' (toLowerCase msg)
           then {''Lottery Scam''} else {})
   \<and> set (snd (extractIndicators toLowerCase msg)) =
       (if test ''otp'' (toLowerCase msg) \<or> test ''one time password'' (toLowerCase msg)
        then {''OTP''} else {})
       \<union> (if test ''upi'' (toLowerCase msg) \<or> test ''account number'' (toLowerCase msg)
             \<or> test ''bank'' (toLowerCase msg)
           then {''Bank Details''} else {})
   \<and> set (fst (extractIndicators toLowerCase
          ''Your account will be blocked in 24 hours, share OTP now'')) = {''Threat / Urgency''}
   \<and> set (snd (extractIndicators toLowerCase
          ''Your account will be blocked in 24 hours, share OTP now'')) = {''OTP''}
   \<and> set (fst (extractIndicators toLowerCase ''Congrats you won a prize, click this link''))
       = {''Lottery Scam'', ''Phishing Link''}"
proof -
  have up: "extractIndicators toLowerCase (asciiUpper msg) = extractIndicators toLowerCase msg"
    using assms by (simp add: extractIndicators_def lowering_upper)
  have low: "extractIndicators toLowerCase (asciiLower msg) = extractIndicators toLowerCase msg"
    using assms by (simp add: extractIndicators_def lowering_def)
  have e1: "set (fst (extractIndicators toLowerCase
        ''Your account will be blocked in 24 hours, share OTP now'')) = {''Threat / Urgency''}"
    by (simp add: extractIndicators_ascii [OF assms example_texts_ascii(1)]
        extractIndicators_blocked)
  have e2: "set (snd (extractIndicators toLowerCase
        ''Your account will be blocked in 24 hours, share OTP now'')) = {''OTP''}"
    by (simp add: extractIndicators_ascii [OF assms example_texts_ascii(1)]
        extractIndicators_blocked)
  have e3: "set (fst (extractIndicators toLowerCase ''Congrats you won a prize, click this link''))
       = {''Lottery Scam'', ''Phishing Link''}"
    by (simp add: extractIndicators_ascii [OF assms example_texts_ascii(2)]
        extractIndicators_prize insert_commute)
  show ?thesis
    using up low extractIndicators_sets [of toLowerCase msg] e1 e2 e3 by blast
qed

lemma extractIndicators_mixed:
  "extractIndicators asciiLower ''Share the OTP'' = ([], [''OTP''])"
  "extractIndicators asciiLower (asciiUpper ''Share the OTP'') = ([], [''OTP''])"
  by code_simp+

theorem extractIndicators_rule_table_witness:
  "lowering asciiLower
   \<and> extractIndicators asciiLower (asciiUpper ''Share the OTP'') =
       extractIndicators asciiLower ''Share the OTP''
   \<and> extractIndicators asciiLower ''Share the OTP'' = ([], [''OTP''])
   \<and> set (fst (extractIndicators asciiLower
          ''Your account will be blocked in 24 hours, share OTP now'')) = {''Threat / Urgency''}
   \<and> set (fst (extractIndicators asciiLower ''Congrats you won a prize, click this link''))
       = {''Lottery Scam'', ''Phishing Link''}"
  using extractIndicators_rule_table [OF lowering_asciiLower, of "''Share the OTP''"]
    lowering_asciiLower extractIndicators_mixed
  by simp

subsection \<open>Reports\<close>

text \<open>
  C10. Every payload that the handler posts to the evaluation endpoint, in any sequence of
  events from any state of the system, reports \<open>scamDetected = true\<close>, whatever was
  extracted.
\<close>

theorem report_says_scam_detected:
  "p \<in> set (posted (snd (exec toLowerCase sys es))) \<Longrightarrow> scamDetected p"
proof -
  assume "p \<in> set (posted (snd (exec toLowerCase sys es)))"
  then obtain sys' ev where "p \<in> set (posted (snd (step toLowerCase sys' ev)))"
    using exec_posted by blast
  then obtain sid md s where "p = report sid md s"
    by (rule step_posted)
  then show "scamDetected p" by (simp add: report_def)
qed

lemma quietRun_posted:
  "posted (snd (exec asciiLower initial quietRun)) =
     [\<lparr>p_sessionId = ''s1'', scamDetected = True, p_scamIndicators = [],
       requestedSensitiveData = [], p_channel = JStr ''Unknown'', p_language = JStr ''Unknown'',
       p_locale = JStr ''Unknown'', totalTurns = 4\<rparr>]"
  by code_simp

theorem report_says_scam_detected_witness:
  "posted (snd (exec asciiLower initial quietRun)) =
     [\<lparr>p_sessionId = ''s1'', scamDetected = True, p_scamIndicators = [],
       requestedSensitiveData = [], p_channel = JStr ''Unknown'', p_language = JStr ''Unknown'',
       p_locale = JStr ''Unknown'', totalTurns = 4\<rparr>]
   \<and> scamDetected \<lparr>p_sessionId = ''s1'', scamDetected = True, p_scamIndicators = [],
       requestedSensitiveData = [], p_channel = JStr ''Unknown'', p_language = JStr ''Unknown'',
       p_locale = JStr ''Unknown'', totalTurns = 4\<rparr>"
  using report_says_scam_detected [of "\<lparr>p_sessionId = ''s1'', scamDetected = True,
       p_scamIndicators = [], requestedSensitiveData = [], p_channel = JStr ''Unknown'',
       p_language = JStr ''Unknown'', p_locale = JStr ''Unknown'', totalTurns = 4\<rparr>"
      asciiLower initial quietRun]
    quietRun_posted
  by simp

subsection \<open>The turn counter\<close>

lemma exec_initial_counter:
  "(store (fst (exec f initial es)) sid = Some s \<longrightarrow> turns s = processed sid es)
   \<and> (processed sid es = 0 \<longrightarrow> store (fst (exec f initial es)) sid = None)
   \<and> (0 < processed sid es \<and> sid \<notin> set inheritedKeys
        \<longrightarrow> store (fst (exec f initial es)) sid \<noteq> None)"
proof (cases "sid \<in> set inheritedKeys")
  case True
  have "store (fst (exec f initial es)) sid = None"
    using exec_keeps_absent [of initial sid f es] True by (simp add: initial_def)
  then show ?thesis using True by simp
next
  case False
  have "turnCounter (store (fst (exec f initial es))) sid = processed sid es
      \<and> (store (fst (exec f initial es)) sid = None) = (processed sid es = 0)"
    using exec_turnCounter [of initial sid f es] False
    by (simp add: turnCounter_def initial_def)
  then show ?thesis by (auto simp: turnCounter_def)
qed

text \<open>
  C3. In any sequence of events from the initial system, a session's turn counter equals
  the number of requests processed for it (those that pass the guards of the handler): no
  session exists before the first one, the session is created with the counter 0, and
  from any state of the system each processed request adds exactly one to the counter,
  whether calls overlap or not.
\<close>

theorem turn_counter_counts_inbound:
  "(store (fst (exec toLowerCase initial es)) sid = Some s \<longrightarrow> turns s = processed sid es)
   \<and> (processed sid es0 = 0 \<longrightarrow> store (fst (exec toLowerCase initial es0)) sid = None)
   \<and> (0 < processed sid es \<and> sid \<notin> set inheritedKeys
        \<longrightarrow> store (fst (exec toLowerCase initial es)) sid \<noteq> None)
   \<and> (store sys sid \<noteq> None \<or> sid \<notin> set inheritedKeys \<longrightarrow>
        turnCounter (store (fst (exec toLowerCase sys es))) sid
          = turnCounter (store sys) sid + processed sid es)
   \<and> turns newSession = 0"
proof -
  have "store sys sid \<noteq> None \<or> sid \<notin> set inheritedKeys \<longrightarrow>
      turnCounter (store (fst (exec toLowerCase sys es))) sid
        = turnCounter (store sys) sid + processed sid es"
    using exec_turnCounter [of sys sid toLowerCase es] by simp
  with exec_initial_counter [of toLowerCase es sid s] exec_initial_counter [of toLowerCase es0 sid s]
  show ?thesis by (simp add: newSession_def)
qed

lemma numberRun_s1:
  "store (fst (exec asciiLower initial numberRun)) ''s1'' =
     Some \<lparr>turns = 5, scamIndicators = [], requestedData = [], finalized = True\<rparr>"
  "processed ''s1'' numberRun = 5"
  by code_simp+

lemma s1_not_inherited: "''s1'' \<notin> set inheritedKeys"
  by (simp add: inheritedKeys_def)

lemma otherRun_s1:
  "processed ''s1'' otherRun = 0"
  "store (fst (exec asciiLower initial otherRun)) ''s1'' = None"
  by code_simp+

lemma initial_store: "store initial = Map.empty"
  by (simp add: initial_def)

theorem turn_counter_counts_inbound_witness:
  "store (fst (exec asciiLower initial numberRun)) ''s1'' =
     Some \<lparr>turns = 5, scamIndicators = [], requestedData = [], finalized = True\<rparr>
   \<and> processed ''s1'' numberRun = 5
   \<and> processed ''s1'' otherRun = 0
   \<and> store (fst (exec asciiLower initial otherRun)) ''s1'' = None
   \<and> 0 < processed ''s1'' numberRun
   \<and> ''s1'' \<notin> set inheritedKeys
   \<and> turnCounter (store (fst (exec asciiLower initial numberRun))) ''s1'' =
       turnCounter (store initial) ''s1'' + processed ''s1'' numberRun"
  using turn_counter_counts_inbound [of asciiLower numberRun "''s1''"
      "\<lparr>turns = 5, scamIndicators = [], requestedData = [], finalized = True\<rparr>"
      otherRun initial]
    numberRun_s1 otherRun_s1 s1_not_inherited
  by simp

subsection \<open>Growth of the indicator sets\<close>

lemma arrive_inbound:
  assumes "inbound req = Some (sid, msg, md)" and "st sid = Some s"
  shows "snd (arrive f req st) = st(sid \<mapsto> advance f msg s)"
proof -
  from assms(1) have a: "accepted req = Some (sid, JStr msg, md)"
    by (simp add: inbound_accepted)
  from assms(2) have c: "st sid \<noteq> None \<or> sid \<notin> set inheritedKeys" by simp
  from assms(2) have so: "sessionOf st sid = s" by (simp add: sessionOf_def)
  show ?thesis
    by (simp add: arrive_accepted [OF a] engage_string [where st=st and sid=sid, OF c] so)
qed

lemma handler_inbound_lookup:
  assumes "inbound req = Some (sid, msg, md)" and "st sid = Some s"
  shows "\<exists>s'. fst (snd (handler f w req st)) sid = Some s'
           \<and> scamIndicators s' = scamIndicators (advance f msg s)
           \<and> requestedData s' = requestedData (advance f msg s)
           \<and> turns s' = Suc (turns s)
           \<and> (finalized s \<longrightarrow> finalized s')"
proof -
  from assms(2) have c: "st sid \<noteq> None \<or> sid \<notin> set inheritedKeys" by simp
  from assms(2) have so: "sessionOf st sid = s" by (simp add: sessionOf_def)
  show ?thesis
    by (simp add: handler_session [where st=st and sid=sid, OF assms(1) c, unfolded so]
        advance_turns advance_finalized split: option.splits)
qed

text \<open>
  C4. Handling requests never removes a tag: over any sequence of events from any state
  of the system, the indicator set and the requested-data set of a session contain what
  they contained before (the earlier tags stay in front, in their order); and one
  processed message changes the two sets by a union with what the extractor finds in its
  text, in a call that runs without interruption and already at the arrival of the
  request.
\<close>

theorem indicator_sets_grow:
  "(store sys sid = Some s \<longrightarrow>
      (\<exists>s'. store (fst (exec toLowerCase sys es)) sid = Some s'
         \<and> set (scamIndicators s) \<subseteq> set (scamIndicators s')
         \<and> set (requestedData s) \<subseteq> set (requestedData s')
         \<and> prefix (scamIndicators s) (scamIndicators s')
         \<and> prefix (requestedData s) (requestedData s')))
   \<and> (st sid = Some s \<and> inbound req = Some (sid, msg, md) \<longrightarrow>
      (\<exists>s'. fst (snd (handler toLowerCase w req st)) sid = Some s'
         \<and> set (scamIndicators s') =
             set (scamIndicators s) \<union> set (fst (extractIndicators toLowerCase msg))
         \<and> set (requestedData s') =
             set (requestedData s) \<union> set (snd (extractIndicators toLowerCase msg))))
   \<and> (store sys sid = Some s \<and> inbound req = Some (sid, msg, md) \<longrightarrow>
      (\<exists>s'. store (fst (step toLowerCase sys (Arrive req))) sid = Some s'
         \<and> set (scamIndicators s') =
             set (scamIndicators s) \<union> set (fst (extractIndicators toLowerCase msg))
         \<and> set (requestedData s') =
             set (requestedData s) \<union> set (snd (extractIndicators toLowerCase msg))))"
proof -
  have a: "\<exists>s'. store (fst (exec toLowerCase sys es)) sid = Some s'
         \<and> set (scamIndicators s) \<subseteq> set (scamIndicators s')
         \<and> set (requestedData s) \<subseteq> set (requestedData s')
         \<and> prefix (scamIndicators s) (scamIndicators s')
         \<and> prefix (requestedData s) (requestedData s')" if "store sys sid = Some s"
  proof -
    from exec_grows [where sys=sys and sid=sid and es=es and f=toLowerCase, OF that]
    obtain s' where
      "store (fst (exec toLowerCase sys es)) sid = Some s'"
      "prefix (scamIndicators s) (scamIndicators s')"
      "prefix (requestedData s) (requestedData s')"
      by blast
    then show ?thesis by (auto dest: set_mono_prefix)
  qed
  have b: "\<exists>s'. fst (snd (handler toLowerCase w req st)) sid = Some s'
         \<and> set (scamIndicators s') =
             set (scamIndicators s) \<union> set (fst (extractIndicators toLowerCase msg))
         \<and> set (requestedData s') =
             set (requestedData s) \<union> set (snd (extractIndicators toLowerCase msg))"
    if s: "st sid = Some s" and i: "inbound req = Some (sid, msg, md)"
  proof -
    from handler_inbound_lookup [where st=st and sid=sid and f=toLowerCase and w=w, OF i s]
    obtain s' where "fst (snd (handler toLowerCase w req st)) sid = Some s'"
      "scamIndicators s' = scamIndicators (advance toLowerCase msg s)"
      "requestedData s' = requestedData (advance toLowerCase msg s)"
      by blast
    then show ?thesis by (simp add: advance_indicators advance_requested)
  qed
  have c: "\<exists>s'. store (fst (step toLowerCase sys (Arrive req))) sid = Some s'
         \<and> set (scamIndicators s') =
             set (scamIndicators s) \<union> set (fst (extractIndicators toLowerCase msg))
         \<and> set (requestedData s') =
             set (requestedData s) \<union> set (snd (extractIndicators toLowerCase msg))"
    if s: "store sys sid = Some s" and i: "inbound req = Some (sid, msg, md)"
    by (simp add: onArrive_store arrive_inbound [where st="store sys" and sid=sid, OF i s]
        advance_indicators advance_requested)
  from a b c show ?thesis by blast
qed

lemma post_inbound:
  "inbound (post ''s1'' ''share the otp'') = Some (''s1'', ''share the otp'', JObj [])"
  by (simp add: inbound_def accepted_def post_def postValue_def messageText_def metadataOf_def)

lemma closedStore_s1:
  "closedStore ''s1'' =
     Some \<lparr>turns = 4, scamIndicators = [], requestedData = [], finalized = True\<rparr>"
  by code_simp

lemma closedSystem_store: "store closedSystem = closedStore"
  by (simp add: closedSystem_def closedStore_def)

lemma closedSystem_later:
  "store (fst (exec asciiLower closedSystem laterRun)) ''s1'' =
     Some \<lparr>turns = 9,
            scamIndicators = [''Threat / Urgency'', ''Phishing Link'', ''Lottery Scam''],
            requestedData = [''OTP''], finalized = True\<rparr>"
  by code_simp

lemma closedStore_next:
  "handler asciiLower geminiDown (post ''s1'' ''share the otp'') closedStore =
     (Response 200 (JObj [(''status'', JStr ''success''),
        (''reply'', JStr ''Can you share official confirmation for this request?'')]),
      closedStore(''s1'' \<mapsto>
        \<lparr>turns = 5, scamIndicators = [], requestedData = [''OTP''], finalized = True\<rparr>), [])"
proof -
  have c: "closedStore ''s1'' \<noteq> None \<or> ''s1'' \<notin> set inheritedKeys"
    by (simp add: closedStore_s1)
  note h = handler_session [where st=closedStore and sid="''s1''" and f=asciiLower
      and w=geminiDown, OF post_inbound c]
  have so: "sessionOf closedStore ''s1'' =
      \<lparr>turns = 4, scamIndicators = [], requestedData = [], finalized = True\<rparr>"
    by (simp add: sessionOf_def closedStore_s1)
  have g: "generateGeminiReply geminiDown prompt = Some JNull" for prompt
    by (simp add: generateGeminiReply_def geminiDown_def)
  have a: "advance asciiLower ''share the otp''
      \<lparr>turns = 4, scamIndicators = [], requestedData = [], finalized = True\<rparr>
      = \<lparr>turns = 5, scamIndicators = [], requestedData = [''OTP''], finalized = True\<rparr>"
    by code_simp
  have b: "baseReply 5 = ''Can you share official confirmation for this request?''"
    by code_simp
  show ?thesis
    unfolding h so g by (simp add: a b orElse_def successBody_def)
qed

lemma closedSystem_arrival:
  "store (fst (step asciiLower closedSystem (Arrive (post ''s1'' ''share the otp'')))) ''s1'' =
     Some \<lparr>turns = 5, scamIndicators = [], requestedData = [''OTP''], finalized = True\<rparr>"
  by code_simp

lemma extractIndicators_otp: "extractIndicators asciiLower ''share the otp'' = ([], [''OTP''])"
  by code_simp

theorem indicator_sets_grow_witness:
  "store closedSystem ''s1'' =
     Some \<lparr>turns = 4, scamIndicators = [], requestedData = [], finalized = True\<rparr>
   \<and> closedStore ''s1'' =
     Some \<lparr>turns = 4, scamIndicators = [], requestedData = [], finalized = True\<rparr>
   \<and> inbound (post ''s1'' ''share the otp'') = Some (''s1'', ''share the otp'', JObj [])
   \<and> store (fst (exec asciiLower closedSystem laterRun)) ''s1'' =
     Some \<lparr>turns = 9,
            scamIndicators = [''Threat / Urgency'', ''Phishing Link'', ''Lottery Scam''],
            requestedData = [''OTP''], finalized = True\<rparr>
   \<and> fst (snd (handler asciiLower geminiDown (post ''s1'' ''share the otp'') closedStore)) ''s1'' =
     Some \<lparr>turns = 5, scamIndicators = [], requestedData = [''OTP''], finalized = True\<rparr>
   \<and> store (fst (step asciiLower closedSystem (Arrive (post ''s1'' ''share the otp'')))) ''s1'' =
     Some \<lparr>turns = 5, scamIndicators = [], requestedData = [''OTP''], finalized = True\<rparr>
   \<and> set [''OTP''] = set [] \<union> set (snd (extractIndicators asciiLower ''share the otp''))"
  using indicator_sets_grow [of closedSystem "''s1''"
      "\<lparr>turns = 4, scamIndicators = [], requestedData = [], finalized = True\<rparr>"
      asciiLower laterRun closedStore "post ''s1'' ''share the otp''" "''share the otp''"
      "JObj []" geminiDown]
    closedStore_s1 closedSystem_store post_inbound closedSystem_later closedStore_next
    closedSystem_arrival extractIndicators_otp
  by simp

subsection \<open>Finalization\<close>

lemma step_trigger:
  assumes "p \<in> set (posted (snd (step f sys ev)))"
  shows "\<exists>s. store (fst (step f sys ev)) (p_sessionId p) = Some s
           \<and> totalTurns p = turns s \<and> 4 \<le> turns s \<and> finalized s
           \<and> p_scamIndicators p = scamIndicators s
           \<and> requestedSensitiveData p = requestedData s"
    and "4 \<le> turnCounter (store sys) (p_sessionId p)"
    and "\<not> closed (store sys) (p_sessionId p)"
proof -
  from assms obtain k r c g sid where
    c: "c_key c = Some sid" and t: "4 \<le> turns (sessionOf (store sys) sid)"
    and n: "\<not> finalized (sessionOf (store sys) sid)"
    and p: "p = report sid (c_metadata c) ((sessionOf (store sys) sid)\<lparr>finalized := True\<rparr>)"
    and st: "store (fst (step f sys ev)) = fst (snd (afterGemini c g (store sys)))"
    by (rule step_posted)
  have sid: "p_sessionId p = sid" by (simp add: p report_def)
  show "\<exists>s. store (fst (step f sys ev)) (p_sessionId p) = Some s
           \<and> totalTurns p = turns s \<and> 4 \<le> turns s \<and> finalized s
           \<and> p_scamIndicators p = scamIndicators s
           \<and> requestedSensitiveData p = requestedData s"
    unfolding sid st using t n by (simp add: afterGemini_store c p report_def)
  show "4 \<le> turnCounter (store sys) (p_sessionId p)"
    unfolding sid using t by (simp add: turnCounter_sessionOf)
  show "\<not> closed (store sys) (p_sessionId p)"
    unfolding sid using n by (simp add: closed_sessionOf)
qed



lemma waitingSystem_step:
  "posted (snd (step asciiLower waitingSystem (GeminiSettles 3 FetchRejected))) =
     [\<lparr>p_sessionId = ''s1'', scamDetected = True, p_scamIndicators = [],
       requestedSensitiveData = [], p_channel = JStr ''Unknown'', p_language = JStr ''Unknown'',
       p_locale = JStr ''Unknown'', totalTurns = 4\<rparr>]"
  "turnCounter (store waitingSystem) ''s1'' = 4"
  "closed (store waitingSystem) ''s1'' = False"
  "closed (store (fst (step asciiLower waitingSystem (GeminiSettles 3 FetchRejected)))) ''s1''"
  by code_simp+






text \<open>
  C8, as the code has it. A report carries the turn counter and the two indicator sets
  (read in insertion order) that the session of its identifier has at the moment of
  finalization, whether calls overlap or not; that counter is at least 4. It is exactly 4
  when the calls are handled in turn, are answered by the backend and carry string texts.
\<close>

theorem report_at_threshold:
  "(p \<in> set (posted (snd (step toLowerCase sys ev))) \<longrightarrow>
      (\<exists>s. store (fst (step toLowerCase sys ev)) (p_sessionId p) = Some s
         \<and> totalTurns p = turns s \<and> 4 \<le> turns s \<and> finalized s
         \<and> p_scamIndicators p = scamIndicators s
         \<and> requestedSensitiveData p = requestedData s))
   \<and> (q \<in> set (snd (snd (handler toLowerCase w req st))) \<longrightarrow>
      (\<exists>s. fst (snd (handler toLowerCase w req st)) (p_sessionId q) = Some s
         \<and> totalTurns q = turns s \<and> 4 \<le> turns s \<and> finalized s
         \<and> p_scamIndicators q = scamIndicators s
         \<and> requestedSensitiveData q = requestedData s))
   \<and> (list_all ordinary cs
        \<and> p1 \<in> set (posted (snd (exec toLowerCase initial (inTurn 0 cs)))) \<longrightarrow>
      totalTurns p1 = 4)"
proof -
  have a: "\<exists>s. store (fst (step toLowerCase sys ev)) (p_sessionId p) = Some s
         \<and> totalTurns p = turns s \<and> 4 \<le> turns s \<and> finalized s
         \<and> p_scamIndicators p = scamIndicators s
         \<and> requestedSensitiveData p = requestedData s"
    if "p \<in> set (posted (snd (step toLowerCase sys ev)))"
    using that by (rule step_trigger(1))
  have b: "\<exists>s. fst (snd (handler toLowerCase w req st)) (p_sessionId q) = Some s
         \<and> totalTurns q = turns s \<and> 4 \<le> turns s \<and> finalized s
         \<and> p_scamIndicators q = scamIndicators s
         \<and> requestedSensitiveData q = requestedData s"
    if m: "q \<in> set (snd (snd (handler toLowerCase w req st)))"
  proof -
    from handler_sent [OF m] obtain sid msg md where
      t: "3 \<le> turns (sessionOf st sid)"
      and q: "q = report sid md ((advance toLowerCase msg (sessionOf st sid))\<lparr>finalized := True\<rparr>)"
      and h: "fst (snd (handler toLowerCase w req st)) =
         st(sid \<mapsto> (advance toLowerCase msg (sessionOf st sid))\<lparr>finalized := True\<rparr>)"
      by metis
    show ?thesis
      unfolding h using t by (simp add: q report_def advance_turns)
  qed
  have c: "totalTurns p1 = 4"
    if "list_all ordinary cs"
      and "p1 \<in> set (posted (snd (exec toLowerCase initial (inTurn 0 cs))))"
    using that(1) _ _ _ that(2)
  proof (rule inTurn_four)
    show "calls initial = Map.empty" by (simp add: initial_def)
    show "arrived initial = 0" by (simp add: initial_def)
    show "consistent (store initial)" by (simp add: initial_def consistent_empty)
  qed
  from a b c show ?thesis by blast
qed

lemma thirdStore_fourth:
  "snd (snd (handler asciiLower geminiDown (post ''s1'' ''bye'') thirdStore)) =
     [\<lparr>p_sessionId = ''s1'', scamDetected = True, p_scamIndicators = [],
       requestedSensitiveData = [], p_channel = JStr ''Unknown'', p_language = JStr ''Unknown'',
       p_locale = JStr ''Unknown'', totalTurns = 4\<rparr>]"
  "fst (snd (handler asciiLower geminiDown (post ''s1'' ''bye'') thirdStore)) ''s1'' =
     Some \<lparr>turns = 4, scamIndicators = [], requestedData = [], finalized = True\<rparr>"
  by code_simp+

lemma waitingSystem_after:
  "store (fst (step asciiLower waitingSystem (GeminiSettles 3 FetchRejected))) ''s1'' =
     Some \<lparr>turns = 4, scamIndicators = [], requestedData = [], finalized = True\<rparr>"
  by code_simp

lemma exampleCalls_ordinary: "list_all ordinary exampleCalls"
  by code_simp

lemma exampleCalls_posted:
  "posted (snd (exec asciiLower initial (inTurn 0 exampleCalls))) =
     [\<lparr>p_sessionId = ''s1'', scamDetected = True,
       p_scamIndicators = [''Threat / Urgency'', ''Phishing Link''],
       requestedSensitiveData = [''OTP''], p_channel = JStr ''Unknown'',
       p_language = JStr ''Unknown'', p_locale = JStr ''Unknown'', totalTurns = 4\<rparr>]"
  by code_simp

theorem report_at_threshold_witness:
  "posted (snd (step asciiLower waitingSystem (GeminiSettles 3 FetchRejected))) =
     [\<lparr>p_sessionId = ''s1'', scamDetected = True, p_scamIndicators = [],
       requestedSensitiveData = [], p_channel = JStr ''Unknown'', p_language = JStr ''Unknown'',
       p_locale = JStr ''Unknown'', totalTurns = 4\<rparr>]
   \<and> store (fst (step asciiLower waitingSystem (GeminiSettles 3 FetchRejected))) ''s1'' =
     Some \<lparr>turns = 4, scamIndicators = [], requestedData = [], finalized = True\<rparr>
   \<and> snd (snd (handler asciiLower geminiDown (post ''s1'' ''bye'') thirdStore)) =
     [\<lparr>p_sessionId = ''s1'', scamDetected = True, p_scamIndicators = [],
       requestedSensitiveData = [], p_channel = JStr ''Unknown'', p_language = JStr ''Unknown'',
       p_locale = JStr ''Unknown'', totalTurns = 4\<rparr>]
   \<and> fst (snd (handler asciiLower geminiDown (post ''s1'' ''bye'') thirdStore)) ''s1'' =
     Some \<lparr>turns = 4, scamIndicators = [], requestedData = [], finalized = True\<rparr>
   \<and> list_all ordinary exampleCalls
   \<and> posted (snd (exec asciiLower initial (inTurn 0 exampleCalls))) =
     [\<lparr>p_sessionId = ''s1'', scamDetected = True,
       p_scamIndicators = [''Threat / Urgency'', ''Phishing Link''],
       requestedSensitiveData = [''OTP''], p_channel = JStr ''Unknown'',
       p_language = JStr ''Unknown'', p_locale = JStr ''Unknown'', totalTurns = 4\<rparr>]"
  using report_at_threshold [of "\<lparr>p_sessionId = ''s1'', scamDetected = True,
        p_scamIndicators = [], requestedSensitiveData = [], p_channel = JStr ''Unknown'',
        p_language = JStr ''Unknown'', p_locale = JStr ''Unknown'', totalTurns = 4\<rparr>"
      asciiLower waitingSystem "GeminiSettles 3 FetchRejected"
      "\<lparr>p_sessionId = ''s1'', scamDetected = True,
        p_scamIndicators = [], requestedSensitiveData = [], p_channel = JStr ''Unknown'',
        p_language = JStr ''Unknown'', p_locale = JStr ''Unknown'', totalTurns = 4\<rparr>"
      geminiDown "post ''s1'' ''bye''" thirdStore exampleCalls
      "\<lparr>p_sessionId = ''s1'', scamDetected = True,
        p_scamIndicators = [''Threat / Urgency'', ''Phishing Link''],
        requestedSensitiveData = [''OTP''], p_channel = JStr ''Unknown'',
        p_language = JStr ''Unknown'', p_locale = JStr ''Unknown'', totalTurns = 4\<rparr>"]
    waitingSystem_step(1) waitingSystem_after thirdStore_fourth exampleCalls_ordinary
    exampleCalls_posted
  by simp

text \<open>
  C8, as the claim states it, fails: the report need not say \<open>totalTurns = 4\<close>. When the
  fifth message of a session arrives while the call of the fourth waits for the backend,
  the one report says \<open>totalTurns = 5\<close>; and when the fourth request has a number as its
  text, its call throws before the finalization and the report is posted by the fifth,
  again with \<open>totalTurns = 5\<close>.
\<close>

theorem report_after_threshold:
  "posted (snd (exec asciiLower initial overlapRun)) =
     [\<lparr>p_sessionId = ''s1'', scamDetected = True, p_scamIndicators = [],
       requestedSensitiveData = [], p_channel = JStr ''Unknown'', p_language = JStr ''Unknown'',
       p_locale = JStr ''Unknown'', totalTurns = 5\<rparr>]
   \<and> posted (snd (exec asciiLower initial numberRun)) =
     [\<lparr>p_sessionId = ''s1'', scamDetected = True, p_scamIndicators = [],
       requestedSensitiveData = [], p_channel = JStr ''Unknown'', p_language = JStr ''Unknown'',
       p_locale = JStr ''Unknown'', totalTurns = 5\<rparr>]"
  by code_simp

subsection \<open>Requests for a finalized session\<close>

text \<open>
  C2, as the code has it. Once a session is finalized its flag stays set and no further
  report is posted, but an inbound message for it is processed like any other: at its
  arrival the handler adds one to the turn counter and unions the tags extracted from the
  text into the two sets, and it answers 200 with a reply once the backend has settled.
  Nothing rejects the message as belonging to a closed session.
\<close>

theorem finalized_session_still_processes:
  assumes "st sid = Some s" and "finalized s" and "inbound req = Some (sid, msg, md)"
  shows "\<exists>reply s'. handler toLowerCase w req st =
       (if gemini w (geminiPrompt (baseReply (Suc (turns s)))) = Unsettled then Unanswered
        else Response 200 (successBody reply), st(sid \<mapsto> s'), [])
     \<and> store (fst (step toLowerCase (sys\<lparr>store := st\<rparr>) (Arrive req))) = st(sid \<mapsto> s')
     \<and> finalized s' \<and> turns s' = Suc (turns s)
     \<and> set (scamIndicators s') =
         set (scamIndicators s) \<union> set (fst (extractIndicators toLowerCase msg))
     \<and> set (requestedData s') =
         set (requestedData s) \<union> set (snd (extractIndicators toLowerCase msg))"
proof -
  from assms(1) have c: "st sid \<noteq> None \<or> sid \<notin> set inheritedKeys" by simp
  from assms(1) have so: "sessionOf st sid = s" by (simp add: sessionOf_def)
  note h = handler_session [where st=st and sid=sid and f=toLowerCase and w=w,
      OF assms(3) c, unfolded so]
  let ?s' = "advance toLowerCase msg s"
  have "\<exists>reply. handler toLowerCase w req st =
       (if gemini w (geminiPrompt (baseReply (Suc (turns s)))) = Unsettled then Unanswered
        else Response 200 (successBody reply), st(sid \<mapsto> ?s'), [])"
    using assms(2)
    by (cases "gemini w (geminiPrompt (baseReply (Suc (turns s))))")
      (auto simp: h generateGeminiReply_def)
  moreover have "store (fst (step toLowerCase (sys\<lparr>store := st\<rparr>) (Arrive req)))
      = st(sid \<mapsto> ?s')"
    by (simp add: onArrive_store arrive_inbound [where st=st and sid=sid, OF assms(3,1)])
  moreover have "finalized ?s' \<and> turns ?s' = Suc (turns s)
     \<and> set (scamIndicators ?s') =
         set (scamIndicators s) \<union> set (fst (extractIndicators toLowerCase msg))
     \<and> set (requestedData ?s') =
         set (requestedData s) \<union> set (snd (extractIndicators toLowerCase msg))"
    using assms(2)
    by (simp add: advance_turns advance_finalized advance_indicators advance_requested)
  ultimately show ?thesis by blast
qed

lemma down_rejects: "gemini geminiDown prompt = FetchRejected"
  by (simp add: geminiDown_def)

theorem finalized_session_still_processes_witness:
  "closedStore ''s1'' =
     Some \<lparr>turns = 4, scamIndicators = [], requestedData = [], finalized = True\<rparr>
   \<and> finalized \<lparr>turns = 4, scamIndicators = [], requestedData = [], finalized = True\<rparr>
   \<and> inbound (post ''s1'' ''share the otp'') = Some (''s1'', ''share the otp'', JObj [])
   \<and> (\<exists>reply s'. handler asciiLower geminiDown (post ''s1'' ''share the otp'') closedStore =
         (Response 200 (successBody reply), closedStore(''s1'' \<mapsto> s'), [])
       \<and> store (fst (step asciiLower (closedSystem\<lparr>store := closedStore\<rparr>)
            (Arrive (post ''s1'' ''share the otp'')))) = closedStore(''s1'' \<mapsto> s')
       \<and> finalized s' \<and> turns s' = 5
       \<and> set (requestedData s') = set (snd (extractIndicators asciiLower ''share the otp'')))"
  using finalized_session_still_processes [of closedStore "''s1''"
      "\<lparr>turns = 4, scamIndicators = [], requestedData = [], finalized = True\<rparr>"
      "post ''s1'' ''share the otp''" "''share the otp''" "JObj []" asciiLower geminiDown
      closedSystem]
    closedStore_s1 post_inbound down_rejects
  by simp blast

text \<open>
  C2, as the claim states it, fails: the session \<open>s1\<close> of the store reached by four quiet
  messages is finalized with an empty requested-data set; the next message is answered by
  200 and puts \<open>OTP\<close> into that set.
\<close>

theorem finalized_session_mutated:
  "closedStore ''s1'' =
     Some \<lparr>turns = 4, scamIndicators = [], requestedData = [], finalized = True\<rparr>
   \<and> fst (snd (handler asciiLower geminiDown (post ''s1'' ''share the otp'') closedStore)) ''s1'' =
     Some \<lparr>turns = 5, scamIndicators = [], requestedData = [''OTP''], finalized = True\<rparr>
   \<and> fst (handler asciiLower geminiDown (post ''s1'' ''share the otp'') closedStore) =
     Response 200 (JObj [(''status'', JStr ''success''),
       (''reply'', JStr ''Can you share official confirmation for this request?'')])"
  using closedStore_s1 closedStore_next by simp

subsection \<open>The backend fails\<close>












subsection \<open>Status codes and response bodies\<close>












text \<open>
  C6, as the code has it. The session handler answers 401 when the key header is missing
  or empty and 403 when it holds anything but the accepted key; it does not look at the
  method; with the accepted key, a body without a non-empty \<open>sessionId\<close> or without a
  truthy \<open>message.text\<close> is answered by 200 and a fixed reply, and the store is left as it
  was. The one-shot detection handler answers 200 to every GET, 405 to a method other
  than GET and POST, 401 to a POST whose key is missing or not the accepted one, and 400
  to a POST with the accepted key whose body has no non-empty \<open>text\<close>.
\<close>

theorem gateway_status_codes:
  "(falsy (api_key r1) \<longrightarrow>
      handler toLowerCase w r1 st = (Response 401 (errorBody ''x-api-key missing''), st, []))
   \<and> (\<not> falsy (api_key r2) \<and> api_key r2 \<noteq> Some ''dev-key'' \<longrightarrow>
      handler toLowerCase w r2 st = (Response 403 (errorBody ''Invalid API key''), st, []))
   \<and> (api_key r3 = Some ''dev-key'' \<and> body r3 = Some b3
        \<and> (sessionId b3 = Falsy \<or> \<not> truthy (messageText b3)) \<longrightarrow>
      handler toLowerCase w r3 st =
        (Response 200 (successBody (JStr ''Can you explain this message?'')), st, []))
   \<and> (http_method r4 = ''GET'' \<longrightarrow> statusOf (handler_000 parse w r4) = Some 200)
   \<and> (http_method r5 \<noteq> ''GET'' \<and> http_method r5 \<noteq> ''POST'' \<longrightarrow>
      statusOf (handler_000 parse w r5) = Some 405)
   \<and> (http_method r6 = ''POST'' \<and> api_key r6 \<noteq> Some ''dev-key'' \<longrightarrow>
      statusOf (handler_000 parse w r6) = Some 401)
   \<and> (http_method r7 = ''POST'' \<and> api_key r7 = Some ''dev-key'' \<and> body r7 = Some b7
        \<and> b_text b7 = Falsy \<longrightarrow>
      statusOf (handler_000 parse w r7) = Some 400)"
proof -
  have a: "falsy (api_key r1) \<longrightarrow>
      handler toLowerCase w r1 st = (Response 401 (errorBody ''x-api-key missing''), st, [])"
    by (simp add: handler_def arrive_def)
  have b: "\<not> falsy (api_key r2) \<and> api_key r2 \<noteq> Some ''dev-key'' \<longrightarrow>
      handler toLowerCase w r2 st = (Response 403 (errorBody ''Invalid API key''), st, [])"
    by (simp add: handler_def arrive_def)
  have c: "api_key r3 = Some ''dev-key'' \<and> body r3 = Some b3
        \<and> (sessionId b3 = Falsy \<or> \<not> truthy (messageText b3)) \<longrightarrow>
      handler toLowerCase w r3 st =
        (Response 200 (successBody (JStr ''Can you explain this message?'')), st, [])"
    by (auto simp: handler_def arrive_def)
  have d: "http_method r4 = ''GET'' \<longrightarrow> statusOf (handler_000 parse w r4) = Some 200"
    by (simp add: handler_000_def)
  have e: "http_method r5 \<noteq> ''GET'' \<and> http_method r5 \<noteq> ''POST'' \<longrightarrow>
      statusOf (handler_000 parse w r5) = Some 405"
    by (simp add: handler_000_def)
  have f: "http_method r6 = ''POST'' \<and> api_key r6 \<noteq> Some ''dev-key'' \<longrightarrow>
      statusOf (handler_000 parse w r6) = Some 401"
    by (simp add: handler_000_def)
  have g: "http_method r7 = ''POST'' \<and> api_key r7 = Some ''dev-key'' \<and> body r7 = Some b7
        \<and> b_text b7 = Falsy \<longrightarrow>
      statusOf (handler_000 parse w r7) = Some 400"
    by (simp add: handler_000_def)
  from a b c d e f g show ?thesis by blast
qed

lemma example_requests:
  "falsy (api_key withoutKey)"
  "\<not> falsy (api_key wrongKey) \<and> api_key wrongKey \<noteq> Some ''dev-key''"
  "api_key withoutMessage = Some ''dev-key''"
  "body withoutMessage =
     Some \<lparr>sessionId = Truthy ''s1'', message = None, metadata = JUndefined, b_text = Falsy\<rparr>"
  "\<not> truthy (messageText
     \<lparr>sessionId = Truthy ''s1'', message = None, metadata = JUndefined, b_text = Falsy\<rparr>)"
  "http_method probe = ''GET''"
  "http_method deleteRequest \<noteq> ''GET'' \<and> http_method deleteRequest \<noteq> ''POST''"
  "http_method wrongKey = ''POST''"
  "http_method withoutText = ''POST'' \<and> api_key withoutText = Some ''dev-key''"
  "body withoutText =
     Some \<lparr>sessionId = Truthy ''s1'', message = Some \<lparr>m_text = JStr ''hello''\<rparr>,
            metadata = JUndefined, b_text = Falsy\<rparr>"
  "b_text \<lparr>sessionId = Truthy ''s1'', message = Some \<lparr>m_text = JStr ''hello''\<rparr>,
            metadata = JUndefined, b_text = Falsy\<rparr> = Falsy"
  by (simp_all add: withoutKey_def wrongKey_def withoutMessage_def probe_def deleteRequest_def
      withoutText_def messageText_def)

theorem gateway_status_codes_witness:
  "falsy (api_key withoutKey)
   \<and> handler asciiLower geminiDown withoutKey closedStore =
       (Response 401 (errorBody ''x-api-key missing''), closedStore, [])
   \<and> \<not> falsy (api_key wrongKey) \<and> api_key wrongKey \<noteq> Some ''dev-key''
   \<and> handler asciiLower geminiDown wrongKey closedStore =
       (Response 403 (errorBody ''Invalid API key''), closedStore, [])
   \<and> api_key withoutMessage = Some ''dev-key''
   \<and> handler asciiLower geminiDown withoutMessage closedStore =
       (Response 200 (successBody (JStr ''Can you explain this message?'')), closedStore, [])
   \<and> http_method probe = ''GET''
   \<and> statusOf (handler_000 parseNothing geminiDown probe) = Some 200
   \<and> statusOf (handler_000 parseNothing geminiDown deleteRequest) = Some 405
   \<and> http_method wrongKey = ''POST''
   \<and> statusOf (handler_000 parseNothing geminiDown wrongKey) = Some 401
   \<and> http_method withoutText = ''POST'' \<and> api_key withoutText = Some ''dev-key''
   \<and> statusOf (handler_000 parseNothing geminiDown withoutText) = Some 400"
  using gateway_status_codes [of withoutKey asciiLower geminiDown closedStore wrongKey
      withoutMessage
      "\<lparr>sessionId = Truthy ''s1'', message = None, metadata = JUndefined, b_text = Falsy\<rparr>"
      probe parseNothing deleteRequest wrongKey withoutText
      "\<lparr>sessionId = Truthy ''s1'', message = Some \<lparr>m_text = JStr ''hello''\<rparr>,
            metadata = JUndefined, b_text = Falsy\<rparr>"]
    example_requests
  by simp

text \<open>
  C6, as the claim states it, fails: the session handler answers a POST with the accepted
  key and no \<open>message.text\<close> by 200, and a GET probe without key by 401; the detection
  handler, which has the liveness answer, answers a POST with a wrong key by 401.
\<close>

theorem missing_text_is_not_400:
  "fst (handler asciiLower geminiDown withoutMessage Map.empty) =
     Response 200 (JObj [(''status'', JStr ''success''),
       (''reply'', JStr ''Can you explain this message?'')])
   \<and> statusOf (fst (handler asciiLower geminiDown probe Map.empty)) = Some 401
   \<and> statusOf (handler_000 parseNothing geminiDown wrongKey) = Some 401"
  by code_simp

end
